theory Spec2Isabelle
  imports Main "HOL-Library.AList"
begin

section \<open>The chapter downloader of \<^verbatim>\<open>scripts/download_chapter.py\<close>\<close>

text \<open>
  The script is one procedure, \<^verbatim>\<open>download_chapter\<close>, and a command-line entry point.
  Everything it does goes through the network (\<^verbatim>\<open>requests.get\<close>), the filesystem
  (\<^verbatim>\<open>os.makedirs\<close>, \<^verbatim>\<open>open\<close>, \<^verbatim>\<open>os.rmdir\<close>) and the two output streams. The embedding
  makes all of that explicit:
  \<^item> the decoded JSON documents are values of the datatype \<open>json\<close>;
  \<^item> the outside world that the script cannot control (what a request returns, whether a
    filesystem call fails) is a record \<open>env\<close> of oracles; theorems quantify over it;
  \<^item> what the script changes (directories, files, the two streams, the log of requests) is
    a record \<open>world\<close> that every operation takes and returns;
  \<^item> a raised exception is a value of \<open>py_exc\<close>, and every \<^verbatim>\<open>try\<close>/\<^verbatim>\<open>except\<close> of the source
    is a case distinction on it.
\<close>

subsection \<open>Python values\<close>

text \<open>
  A float decoded from JSON is a double: a mantissa and a binary exponent, an infinity or
  a NaN (Python's decoder accepts \<^verbatim>\<open>NaN\<close> and \<^verbatim>\<open>Infinity\<close>).
\<close>

datatype pyfloat = Finite int int | Infinite bool | NaN

text \<open>
  What \<^verbatim>\<open>response.json()\<close> returns. A dictionary keeps its insertion order (the code reads
  its first key), so it is an association list; a dictionary decoded by Python has
  distinct keys, and \<open>map_of\<close> is its lookup.
\<close>

datatype json =
    JNull
  | JBool bool
  | JInt int
  | JFloat pyfloat
  | JStr string
  | JList "json list"
  | JDict "(string \<times> json) list"

text \<open>
  The exception classes the script distinguishes. \<^verbatim>\<open>requests.Timeout\<close> is a subclass of
  \<^verbatim>\<open>requests.RequestException\<close> (which stands here for itself and its other subclasses:
  \<^verbatim>\<open>HTTPError\<close>, \<^verbatim>\<open>ConnectionError\<close>, \<^verbatim>\<open>MissingSchema\<close>, ...), and
  \<^verbatim>\<open>RequestException\<close> is a subclass of \<^verbatim>\<open>OSError\<close>. All of them are subclasses of
  \<^verbatim>\<open>Exception\<close>: the network and the filesystem raise nothing else, and
  \<^verbatim>\<open>KeyboardInterrupt\<close> and \<^verbatim>\<open>SystemExit\<close> (signals and explicit exits) are outside the
  model. An exception carries the text that \<^verbatim>\<open>str(e)\<close> gives.
\<close>

datatype exc_class =
    Timeout
  | RequestException
  | KeyError
  | TypeError
  | AttributeError
  | IndexError
  | OSError
  | OtherException

datatype py_exc = Exc exc_class string

fun exc_str :: "py_exc \<Rightarrow> string" where
  "exc_str (Exc c m) = m"

fun is_Timeout :: "py_exc \<Rightarrow> bool" where
  "is_Timeout (Exc c m) = (c = Timeout)"

fun is_RequestException :: "py_exc \<Rightarrow> bool" where
  "is_RequestException (Exc c m) = (c = Timeout \<or> c = RequestException)"

fun is_KeyError :: "py_exc \<Rightarrow> bool" where
  "is_KeyError (Exc c m) = (c = KeyError)"

fun is_OSError :: "py_exc \<Rightarrow> bool" where
  "is_OSError (Exc c m) = (c = OSError \<or> c = Timeout \<or> c = RequestException)"

text \<open>Truth value of a decoded JSON value, as \<^verbatim>\<open>if not x\<close> tests it.\<close>

fun truthy :: "json \<Rightarrow> bool" where
  "truthy JNull = False"
| "truthy (JBool b) = b"
| "truthy (JInt i) = (i \<noteq> 0)"
| "truthy (JFloat (Finite m e)) = (m \<noteq> 0)"
| "truthy (JFloat (Infinite s)) = True"
| "truthy (JFloat NaN) = True"
| "truthy (JStr s) = (s \<noteq> [])"
| "truthy (JList xs) = (xs \<noteq> [])"
| "truthy (JDict kvs) = (kvs \<noteq> [])"

fun type_name :: "json \<Rightarrow> string" where
  "type_name JNull = ''NoneType''"
| "type_name (JBool b) = ''bool''"
| "type_name (JInt i) = ''int''"
| "type_name (JFloat f) = ''float''"
| "type_name (JStr s) = ''str''"
| "type_name (JList xs) = ''list''"
| "type_name (JDict kvs) = ''dict''"

definition quoted :: "string \<Rightarrow> string" where
  "quoted s = CHR 0x27 # s @ [CHR 0x27]"

text \<open>
  \<^verbatim>\<open>x[key]\<close> with a string key: a dictionary gives the value or raises \<^verbatim>\<open>KeyError\<close>
  (whose text is the key's \<^verbatim>\<open>repr\<close>; the keys used are plain words); anything else
  raises \<^verbatim>\<open>TypeError\<close>.
\<close>

fun subscript :: "json \<Rightarrow> string \<Rightarrow> py_exc + json" where
  "subscript (JDict kvs) k =
     (case map_of kvs k of
        None \<Rightarrow> Inl (Exc KeyError (quoted k))
      | Some v \<Rightarrow> Inr v)"
| "subscript (JList xs) k =
     Inl (Exc TypeError ''list indices must be integers or slices, not str'')"
| "subscript (JStr s) k =
     Inl (Exc TypeError (''string indices must be integers, not '' @ quoted ''str''))"
| "subscript v k =
     Inl (Exc TypeError (quoted (type_name v) @ '' object is not subscriptable''))"

text \<open>\<^verbatim>\<open>x.get(key, default)\<close>: only a dictionary has the method.\<close>

fun dict_get :: "json \<Rightarrow> string \<Rightarrow> json \<Rightarrow> py_exc + json" where
  "dict_get (JDict kvs) k d =
     (case map_of kvs k of None \<Rightarrow> Inr d | Some v \<Rightarrow> Inr v)"
| "dict_get v k d =
     Inl (Exc AttributeError
       (quoted (type_name v) @ '' object has no attribute '' @ quoted ''get''))"

text \<open>\<^verbatim>\<open>list(x.keys())\<close>.\<close>

fun dict_keys :: "json \<Rightarrow> py_exc + string list" where
  "dict_keys (JDict kvs) = Inr (map fst kvs)"
| "dict_keys v =
     Inl (Exc AttributeError
       (quoted (type_name v) @ '' object has no attribute '' @ quoted ''keys''))"

text \<open>\<^verbatim>\<open>xs[0]\<close> on a list.\<close>

fun index0 :: "'a list \<Rightarrow> py_exc + 'a" where
  "index0 [] = Inl (Exc IndexError ''list index out of range'')"
| "index0 (x # xs) = Inr x"

text \<open>
  \<^verbatim>\<open>len(x)\<close> together with the items that iterating over \<^verbatim>\<open>x\<close> yields: a list gives its
  elements, a dictionary its keys, a string its characters; \<^verbatim>\<open>len\<close> of anything else
  raises \<^verbatim>\<open>TypeError\<close>.
\<close>

fun py_items :: "json \<Rightarrow> py_exc + json list" where
  "py_items (JList xs) = Inr xs"
| "py_items (JDict kvs) = Inr (map (\<lambda>kv. JStr (fst kv)) kvs)"
| "py_items (JStr s) = Inr (map (\<lambda>c. JStr [c]) s)"
| "py_items v =
     Inl (Exc TypeError (''object of type '' @ quoted (type_name v) @ '' has no len()''))"

subsection \<open>Numbers and strings\<close>

text \<open>\<^verbatim>\<open>str(n)\<close> of a natural number, and the format \<^verbatim>\<open>{page:03d}\<close>.\<close>

definition digit_char :: "nat \<Rightarrow> char" where
  "digit_char d = char_of (48 + d)"

fun show_nat :: "nat \<Rightarrow> string" where
  "show_nat n = (if n < 10 then [digit_char n] else show_nat (n div 10) @ [digit_char (n mod 10)])"

declare show_nat.simps [simp del]

definition pad3 :: "nat \<Rightarrow> string" where
  "pad3 n = replicate (3 - length (show_nat n)) CHR ''0'' @ show_nat n"

text \<open>\<^verbatim>\<open>sub in s\<close> for strings.\<close>

fun str_contains :: "string \<Rightarrow> string \<Rightarrow> bool" where
  "str_contains sub [] = (sub = [])"
| "str_contains sub (c # s) = (take (length sub) (c # s) = sub \<or> str_contains sub s)"

text \<open>
  \<^verbatim>\<open>str.isalnum\<close> and \<^verbatim>\<open>str.isspace\<close> on one character. A \<open>char\<close> is a code point below
  256, so these are Python's tables for Latin-1; a slug with other code points is outside
  the model.
\<close>

definition isalnum :: "char \<Rightarrow> bool" where
  "isalnum c =
     (let n = (of_char c :: nat) in
        (48 \<le> n \<and> n \<le> 57) \<or> (65 \<le> n \<and> n \<le> 90) \<or> (97 \<le> n \<and> n \<le> 122) \<or>
        n = 170 \<or> (178 \<le> n \<and> n \<le> 179) \<or> n = 181 \<or> (185 \<le> n \<and> n \<le> 186) \<or>
        (188 \<le> n \<and> n \<le> 190) \<or> (192 \<le> n \<and> n \<le> 214) \<or> (216 \<le> n \<and> n \<le> 246) \<or>
        (248 \<le> n \<and> n \<le> 255))"

definition isspace :: "char \<Rightarrow> bool" where
  "isspace c =
     (let n = (of_char c :: nat) in
        (9 \<le> n \<and> n \<le> 13) \<or> (28 \<le> n \<and> n \<le> 32) \<or> n = 133 \<or> n = 160)"

definition rstrip :: "string \<Rightarrow> string" where
  "rstrip s = rev (dropWhile isspace (rev s))"

text \<open>\<^verbatim>\<open>os.path.join(a, b)\<close> on POSIX, for a second component that is not absolute.\<close>

definition path_join :: "string \<Rightarrow> string \<Rightarrow> string" where
  "path_join a b =
     (if b \<noteq> [] \<and> hd b = CHR ''/'' then b
      else if a = [] \<or> last a = CHR ''/'' then a @ b
      else a @ ''/'' @ b)"

subsection \<open>The environment and the world\<close>

text \<open>
  A response of \<^verbatim>\<open>requests.get\<close>: the status line, the final URL, the
  \<^verbatim>\<open>content-type\<close> header (\<open>None\<close> when the header is absent), the body, and what
  \<^verbatim>\<open>response.json()\<close> gives (the decoded document, or the decoder's exception).
\<close>

record response =
  resp_status :: nat
  resp_reason :: string
  resp_url :: string
  resp_content_type :: "string option"
  resp_content :: string
  resp_json :: "py_exc + json"

text \<open>What \<^verbatim>\<open>parser.parse_args()\<close> gives: the three arguments, or an exit of the process.\<close>

datatype parse_result =
    Namespace string string string
  | SystemExit nat

text \<open>
  The oracles. \<open>requests_get n url timeout\<close> is the outcome of the \<open>n\<close>-th request of the
  run (counted from 0): the network may answer the same URL differently each time.
  The filesystem oracles say whether a call on a path fails (\<open>None\<close>: it succeeds);
  \<open>file_write\<close> also says how many bytes reached the file before the failure.
  \<open>py_str\<close> is \<^verbatim>\<open>str(x)\<close> for a JSON value that is not a string, and
  \<open>argparse_options\<close> is \<^verbatim>\<open>argparse\<close> on a command line with an argument that starts
  with \<^verbatim>\<open>-\<close>. \<open>stderr_fault\<close> says whether the error stream is broken (closed, a pipe
  without reader, a file on a full device): then every \<^verbatim>\<open>print(..., file=sys.stderr)\<close>
  raises that exception. The procedures below print without failure; the broken error
  stream is taken into account by \<open>download_chapter_io\<close>.
\<close>

record env =
  requests_get :: "nat \<Rightarrow> json \<Rightarrow> nat option \<Rightarrow> py_exc + response"
  os_makedirs :: "string \<Rightarrow> py_exc option"
  open_wb :: "string \<Rightarrow> py_exc option"
  file_write :: "string \<Rightarrow> (py_exc \<times> nat) option"
  os_rmdir :: "string \<Rightarrow> py_exc option"
  py_str :: "json \<Rightarrow> string"
  argparse_options :: "string list \<Rightarrow> parse_result"
  stderr_fault :: "py_exc option"

text \<open>
  What the run changes: the directories and files that exist (a path is its string), the
  lines printed to the two streams, and the requests sent so far.
\<close>

record world =
  dirs :: "string list"
  files :: "(string \<times> string) list"
  stdout :: "string list"
  stderr :: "string list"
  requests :: "(json \<times> nat option) list"

definition print_out :: "string \<Rightarrow> world \<Rightarrow> world" where
  "print_out s w = w\<lparr>stdout := stdout w @ [s]\<rparr>"

definition print_err :: "string \<Rightarrow> world \<Rightarrow> world" where
  "print_err s w = w\<lparr>stderr := stderr w @ [s]\<rparr>"

text \<open>The proper ancestors of a path: \<^verbatim>\<open>os.makedirs\<close> creates them too.\<close>

definition parents :: "string \<Rightarrow> string list" where
  "parents p = map (\<lambda>i. take i p) (filter (\<lambda>i. p ! i = CHR ''/'') [1..<length p])"

text \<open>
  \<^verbatim>\<open>os.makedirs(path, exist_ok=True)\<close>: an existing directory is not an error; a failure
  is taken to leave the directories as they were.
\<close>

definition makedirs :: "env \<Rightarrow> string \<Rightarrow> world \<Rightarrow> (py_exc + unit) \<times> world" where
  "makedirs E path w =
     (case os_makedirs E path of
        Some e \<Rightarrow> (Inl e, w)
      | None \<Rightarrow>
          (Inr (), w\<lparr>dirs := dirs w @ filter (\<lambda>p. p \<notin> set (dirs w)) (parents path @ [path])\<rparr>))"

text \<open>\<^verbatim>\<open>os.rmdir(path)\<close>.\<close>

definition rmdir :: "env \<Rightarrow> string \<Rightarrow> world \<Rightarrow> (py_exc + unit) \<times> world" where
  "rmdir E path w =
     (case os_rmdir E path of
        Some e \<Rightarrow> (Inl e, w)
      | None \<Rightarrow> (Inr (), w\<lparr>dirs := removeAll path (dirs w)\<rparr>))"

text \<open>
  \<^verbatim>\<open>with open(path, 'wb') as f: f.write(data)\<close>: when \<^verbatim>\<open>open\<close> fails there is no file;
  when the write fails the file is there, with the bytes written before the failure.
\<close>

definition write_file :: "env \<Rightarrow> string \<Rightarrow> string \<Rightarrow> world \<Rightarrow> (py_exc + unit) \<times> world" where
  "write_file E path data w =
     (case open_wb E path of
        Some e \<Rightarrow> (Inl e, w)
      | None \<Rightarrow>
          (case file_write E path of
             Some (e, n) \<Rightarrow> (Inl e, w\<lparr>files := AList.update path (take n data) (files w)\<rparr>)
           | None \<Rightarrow> (Inr (), w\<lparr>files := AList.update path data (files w)\<rparr>)))"

text \<open>\<^verbatim>\<open>requests.get(url, timeout=t)\<close>: the request is logged and the oracle answers.\<close>

definition http_get :: "env \<Rightarrow> json \<Rightarrow> nat option \<Rightarrow> world \<Rightarrow> (py_exc + response) \<times> world" where
  "http_get E u t w =
     (requests_get E (length (requests w)) u t, w\<lparr>requests := requests w @ [(u, t)]\<rparr>)"

text \<open>\<^verbatim>\<open>response.raise_for_status()\<close>: \<^verbatim>\<open>HTTPError\<close> for a status 4xx or 5xx.\<close>

definition raise_for_status :: "response \<Rightarrow> py_exc + unit" where
  "raise_for_status r =
     (if 400 \<le> resp_status r \<and> resp_status r < 500 then
        Inl (Exc RequestException
          (show_nat (resp_status r) @ '' Client Error: '' @ resp_reason r @ '' for url: '' @ resp_url r))
      else if 500 \<le> resp_status r \<and> resp_status r < 600 then
        Inl (Exc RequestException
          (show_nat (resp_status r) @ '' Server Error: '' @ resp_reason r @ '' for url: '' @ resp_url r))
      else Inr ())"

text \<open>\<^verbatim>\<open>f"{x}"\<close> for a JSON value.\<close>

definition py_format :: "env \<Rightarrow> json \<Rightarrow> string" where
  "py_format E v = (case v of JStr s \<Rightarrow> s | _ \<Rightarrow> py_str E v)"

subsection \<open>\<^verbatim>\<open>download_chapter\<close>\<close>

text \<open>
  How a block of the procedure ends: it raises, it returns from \<^verbatim>\<open>download_chapter\<close>
  (\<open>None\<close> is Python's \<^verbatim>\<open>None\<close>), or it goes on to the next statement with a value.
\<close>

datatype 'a flow = Raise py_exc | Return "string option" | Next 'a

text \<open>
  \<^verbatim>\<open>response = requests.get(url); response.raise_for_status(); response.json()\<close>
  (lines 15-17 and 41-43; the metadata requests pass no timeout).
\<close>

definition get_json :: "env \<Rightarrow> string \<Rightarrow> world \<Rightarrow> (py_exc + json) \<times> world" where
  "get_json E u w =
     (case http_get E (JStr u) None w of
        (Inl e, w1) \<Rightarrow> (Inl e, w1)
      | (Inr response, w1) \<Rightarrow>
          (case raise_for_status response of
             Inl e \<Rightarrow> (Inl e, w1)
           | Inr _ \<Rightarrow> (resp_json response, w1)))"

text \<open>
  Lines 26-36: the page-list URL of group \<^verbatim>\<open>'1'\<close>, else that of the first group, else
  failure. The source evaluates \<^verbatim>\<open>chapter_data['groups']\<close> each time it needs it; the
  value is the same each time, and is bound once here.
\<close>

definition select_group_url :: "string \<Rightarrow> json \<Rightarrow> world \<Rightarrow> json flow \<times> world" where
  "select_group_url chapter_number chapter_data w =
     (case subscript chapter_data ''groups'' of
        Inl e \<Rightarrow> (Raise e, w)
      | Inr groups \<Rightarrow>
     (case dict_get groups ''1'' JNull of
        Inl e \<Rightarrow> (Raise e, w)
      | Inr group_url \<Rightarrow>
     if truthy group_url then (Next group_url, w)
     else
       let w1 = print_err (''Group '1' (WeebCentral) not found for chapter '' @ chapter_number) w in
       if truthy groups then
         (case dict_keys groups of
            Inl e \<Rightarrow> (Raise e, w1)
          | Inr keys \<Rightarrow>
         (case index0 keys of
            Inl e \<Rightarrow> (Raise e, w1)
          | Inr group_key \<Rightarrow>
         (case subscript groups group_key of
            Inl e \<Rightarrow> (Raise e, w1)
          | Inr group_url' \<Rightarrow>
              (Next group_url', print_out (''Using first available group: '' @ group_key) w1))))
       else (Return None, print_err (''No groups found for chapter '' @ chapter_number) w1)))"

text \<open>Lines 9-44: from the output directory to the decoded page-list document.\<close>

definition fetch_chapter_details ::
  "env \<Rightarrow> string \<Rightarrow> string \<Rightarrow> string \<Rightarrow> world \<Rightarrow> json flow \<times> world" where
  "fetch_chapter_details E series_slug chapter_number output_dir w =
     (case makedirs E output_dir w of
        (Inl e, w0) \<Rightarrow> (Raise e, w0)
      | (Inr _, w0) \<Rightarrow>
     let series_url = ''https://cubari.moe/read/api/weebcentral/series/'' @ series_slug @ ''/'';
         w1 = print_out (''Fetching series data from: '' @ series_url) w0 in
     (case get_json E series_url w1 of
        (Inl e, w2) \<Rightarrow> (Raise e, w2)
      | (Inr series_data, w2) \<Rightarrow>
     let w3 = print_out ''Successfully fetched series data.'' w2 in
     (case subscript series_data ''chapters'' of
        Inl e \<Rightarrow> (Raise e, w3)
      | Inr chapters \<Rightarrow>
     (case dict_get chapters chapter_number JNull of
        Inl e \<Rightarrow> (Raise e, w3)
      | Inr chapter_data \<Rightarrow>
     if \<not> truthy chapter_data then
       (Return None,
        print_err (''Chapter '' @ chapter_number @ '' not found for series '' @ series_slug) w3)
     else
     (case select_group_url chapter_number chapter_data w3 of
        (Raise e, w4) \<Rightarrow> (Raise e, w4)
      | (Return r, w4) \<Rightarrow> (Return r, w4)
      | (Next group_url, w4) \<Rightarrow>
     let chapter_details_url = ''https://cubari.moe'' @ py_format E group_url;
         w5 = print_out (''Fetching chapter details from: '' @ chapter_details_url) w4 in
     (case get_json E chapter_details_url w5 of
        (Inl e, w6) \<Rightarrow> (Raise e, w6)
      | (Inr chapter_details, w6) \<Rightarrow>
          (Next chapter_details, print_out ''Successfully fetched chapter details.'' w6)))))))"

text \<open>Lines 79-89: the extension from the \<^verbatim>\<open>content-type\<close> header.\<close>

definition infer_extension :: "string option \<Rightarrow> string" where
  "infer_extension content_type =
     (case content_type of
        None \<Rightarrow> ''png''
      | Some ct \<Rightarrow>
          if ct \<noteq> [] then
            (if str_contains ''jpeg'' ct \<or> str_contains ''jpg'' ct then ''jpg''
             else if str_contains ''png'' ct then ''png''
             else if str_contains ''webp'' ct then ''webp''
             else if str_contains ''gif'' ct then ''gif''
             else ''png'')
          else ''png'')"

definition page_file_name :: "nat \<Rightarrow> string \<Rightarrow> string" where
  "page_file_name page extension = ''page_'' @ pad3 page @ ''.'' @ extension"

text \<open>
  Lines 75-94, the body of the \<^verbatim>\<open>try\<close> of one iteration: the path of the saved file, or
  the exception raised.
\<close>

definition download_page ::
  "env \<Rightarrow> string \<Rightarrow> nat \<Rightarrow> json \<Rightarrow> world \<Rightarrow> (py_exc + string) \<times> world" where
  "download_page E chapter_specific_dir page proxy_url w =
     (case http_get E proxy_url (Some 30) w of
        (Inl e, w1) \<Rightarrow> (Inl e, w1)
      | (Inr image_response, w1) \<Rightarrow>
     (case raise_for_status image_response of
        Inl e \<Rightarrow> (Inl e, w1)
      | Inr _ \<Rightarrow>
     let extension = infer_extension (resp_content_type image_response);
         file_path = path_join chapter_specific_dir (page_file_name page extension) in
     (case write_file E file_path (resp_content image_response) w1 of
        (Inl e, w2) \<Rightarrow> (Inl e, w2)
      | (Inr _, w2) \<Rightarrow>
          (Inr file_path,
           print_out (''Saved page '' @ show_nat page @ '' to '' @ file_path) w2))))"

text \<open>
  Lines 72-100, the loop over \<^verbatim>\<open>enumerate(image_urls, start=1)\<close>: a timeout or another
  request exception is printed and the loop goes on; any other exception leaves the loop.
  The result is \<^verbatim>\<open>downloaded_files\<close>.
\<close>

fun download_pages ::
  "env \<Rightarrow> string \<Rightarrow> nat \<Rightarrow> (nat \<times> json) list \<Rightarrow> string list \<Rightarrow> world
     \<Rightarrow> (py_exc + string list) \<times> world" where
  "download_pages E chapter_specific_dir total_pages [] downloaded_files w =
     (Inr downloaded_files, w)"
| "download_pages E chapter_specific_dir total_pages ((page, proxy_url) # rest) downloaded_files w =
     (let w1 = print_out (''Downloading page '' @ show_nat page @ ''/'' @ show_nat total_pages @
                 '' from '' @ py_format E proxy_url @ ''...'') w in
      case download_page E chapter_specific_dir page proxy_url w1 of
        (Inr file_path, w2) \<Rightarrow>
          download_pages E chapter_specific_dir total_pages rest (downloaded_files @ [file_path]) w2
      | (Inl e, w2) \<Rightarrow>
          if is_Timeout e then
            download_pages E chapter_specific_dir total_pages rest downloaded_files
              (print_err (''Timeout downloading page '' @ show_nat page) w2)
          else if is_RequestException e then
            download_pages E chapter_specific_dir total_pages rest downloaded_files
              (print_err (''Failed to download page '' @ show_nat page @ '': '' @ exc_str e) w2)
          else (Inl e, w2))"

text \<open>Lines 64-65.\<close>

definition safe_slug :: "string \<Rightarrow> string" where
  "safe_slug series_slug =
     rstrip (filter (\<lambda>c. isalnum c \<or> c = CHR ''_'' \<or> c = CHR ''-'') series_slug)"

definition chapter_specific_dir :: "string \<Rightarrow> string \<Rightarrow> string \<Rightarrow> string" where
  "chapter_specific_dir series_slug chapter_number output_dir =
     path_join output_dir (safe_slug series_slug @ ''_Chapter_'' @ chapter_number)"

text \<open>Lines 47-53: the page list of the document.\<close>

definition get_image_urls :: "json \<Rightarrow> world \<Rightarrow> json flow \<times> world" where
  "get_image_urls chapter_details w =
     (case chapter_details of
        JList xs \<Rightarrow> (Next chapter_details, w)
      | JDict kvs \<Rightarrow>
          (case dict_get chapter_details ''pages'' (JList []) of
             Inl e \<Rightarrow> (Raise e, w)
           | Inr image_urls \<Rightarrow> (Next image_urls, w))
      | _ \<Rightarrow>
          (Return None,
           print_err (''Unexpected chapter details type: <class '' @
             quoted (type_name chapter_details) @ ''>'') w))"

text \<open>Lines 102-114: after the loop.\<close>

definition finish_download ::
  "env \<Rightarrow> string \<Rightarrow> string \<Rightarrow> nat \<Rightarrow> string list \<Rightarrow> world \<Rightarrow> (py_exc + string option) \<times> world" where
  "finish_download E chapter_number dir total_pages downloaded_files w =
     (let download_count = length downloaded_files in
      if download_count > 0 then
        (Inr (Some dir),
         print_out (''Successfully downloaded '' @ show_nat download_count @ ''/'' @
           show_nat total_pages @ '' pages for chapter '' @ chapter_number @ '' to '' @ dir) w)
      else
        let w1 = print_err (''Failed to download any pages for chapter '' @ chapter_number @ ''.'') w in
        (case rmdir E dir w1 of
           (Inr _, w2) \<Rightarrow> (Inr None, print_out (''Removed empty directory: '' @ dir) w2)
         | (Inl rm_err, w2) \<Rightarrow>
             if is_OSError rm_err then
               (Inr None,
                print_err (''Could not remove directory '' @ dir @ '': '' @ exc_str rm_err) w2)
             else (Inl rm_err, w2)))"

text \<open>Lines 46-114: from the decoded page-list document to the result.\<close>

definition process_chapter_details ::
  "env \<Rightarrow> string \<Rightarrow> string \<Rightarrow> string \<Rightarrow> json \<Rightarrow> world \<Rightarrow> (py_exc + string option) \<times> world" where
  "process_chapter_details E series_slug chapter_number output_dir chapter_details w =
     (case get_image_urls chapter_details w of
        (Raise e, w1) \<Rightarrow> (Inl e, w1)
      | (Return r, w1) \<Rightarrow> (Inr r, w1)
      | (Next image_urls, w1) \<Rightarrow>
     (case py_items image_urls of
        Inl e \<Rightarrow> (Inl e, w1)
      | Inr items \<Rightarrow>
     let total_pages = length items in
     if total_pages = 0 then
       (Inr None, print_out (''No pages found for chapter '' @ chapter_number) w1)
     else
     let w2 = print_out (''Found '' @ show_nat total_pages @ '' pages for chapter '' @
                chapter_number @ ''.'') w1;
         dir = chapter_specific_dir series_slug chapter_number output_dir in
     (case makedirs E dir w2 of
        (Inl e, w3) \<Rightarrow> (Inl e, w3)
      | (Inr _, w3) \<Rightarrow>
     let w4 = print_out (''Output directory: '' @ dir) w3 in
     (case download_pages E dir total_pages (zip [1..<Suc total_pages] items) [] w4 of
        (Inl e, w5) \<Rightarrow> (Inl e, w5)
      | (Inr downloaded_files, w5) \<Rightarrow>
          finish_download E chapter_number dir total_pages downloaded_files w5))))"

text \<open>Lines 8-114: the body of the outer \<^verbatim>\<open>try\<close>.\<close>

definition download_chapter_try ::
  "env \<Rightarrow> string \<Rightarrow> string \<Rightarrow> string \<Rightarrow> world \<Rightarrow> (py_exc + string option) \<times> world" where
  "download_chapter_try E series_slug chapter_number output_dir w =
     (case fetch_chapter_details E series_slug chapter_number output_dir w of
        (Raise e, w1) \<Rightarrow> (Inl e, w1)
      | (Return r, w1) \<Rightarrow> (Inr r, w1)
      | (Next chapter_details, w1) \<Rightarrow>
          process_chapter_details E series_slug chapter_number output_dir chapter_details w1)"

text \<open>
  Lines 116-124: the three handlers of the outer \<^verbatim>\<open>try\<close>, in their order. Each prints
  its line to the error stream and returns \<^verbatim>\<open>None\<close>; the last one takes every exception
  the first two leave.
\<close>

definition handler_message :: "py_exc \<Rightarrow> string" where
  "handler_message e =
     (if is_RequestException e then ''Network error occurred: '' @ exc_str e
      else if is_KeyError e then ''Data structure error: Missing key '' @ exc_str e
      else ''Unexpected error: '' @ exc_str e)"

text \<open>
  The procedure. \<open>Inl e\<close> would be an exception that leaves \<^verbatim>\<open>download_chapter\<close>;
  \<open>Inr None\<close> is the failure value and \<open>Inr (Some path)\<close> the chapter directory.
\<close>

definition download_chapter ::
  "env \<Rightarrow> string \<Rightarrow> string \<Rightarrow> string \<Rightarrow> world \<Rightarrow> (py_exc + string option) \<times> world" where
  "download_chapter E series_slug chapter_number output_dir w =
     (case download_chapter_try E series_slug chapter_number output_dir w of
        (Inr r, w1) \<Rightarrow> (Inr r, w1)
      | (Inl e, w1) \<Rightarrow> (Inr None, print_err (handler_message e) w1))"

text \<open>
  What \<^verbatim>\<open>download_chapter\<close> gives its caller when the error stream can be broken. With a
  sound error stream it is the result above. With a broken one, the first
  \<^verbatim>\<open>print(..., file=sys.stderr)\<close> of the run raises the fault. That print is in the body of
  the \<^verbatim>\<open>try\<close> or in a handler of the loop (then the fault reaches a handler of lines
  116-124), or it is the print of such a handler after an exception of the body; in both
  cases the print of line 117, 120 or 123 raises the fault again, inside the handler,
  where nothing catches it: the fault leaves \<^verbatim>\<open>download_chapter\<close>. A run that prints
  nothing to the error stream is not affected. Up to its first print to the error stream
  a run is the run above, so the body prints to the error stream exactly when the error
  stream of the world above has grown.
\<close>

definition download_chapter_io ::
  "env \<Rightarrow> string \<Rightarrow> string \<Rightarrow> string \<Rightarrow> world \<Rightarrow> py_exc + string option" where
  "download_chapter_io E series_slug chapter_number output_dir w =
     (case stderr_fault E of
        None \<Rightarrow> fst (download_chapter E series_slug chapter_number output_dir w)
      | Some fault \<Rightarrow>
          (case download_chapter_try E series_slug chapter_number output_dir w of
             (Inr r, w1) \<Rightarrow> if stderr w1 = stderr w then Inr r else Inl fault
           | (Inl e, w1) \<Rightarrow> Inl fault))"

subsection \<open>The command line\<close>



subsection \<open>Example runs\<close>

text \<open>
  Environments to run the procedure in. A scripted environment answers the requests of a
  run in their order with a given list of outcomes (and refuses the connection after the
  last one); its filesystem never fails unless said otherwise.
\<close>

definition image_response :: "string option \<Rightarrow> string \<Rightarrow> response" where
  "image_response ct body =
     \<lparr>resp_status = 200, resp_reason = ''OK'', resp_url = [], resp_content_type = ct,
      resp_content = body, resp_json = Inl (Exc RequestException ''Expecting value'')\<rparr>"

definition json_response :: "json \<Rightarrow> response" where
  "json_response j =
     \<lparr>resp_status = 200, resp_reason = ''OK'', resp_url = [],
      resp_content_type = Some ''application/json'', resp_content = [], resp_json = Inr j\<rparr>"


definition scripted_env :: "(py_exc + response) list \<Rightarrow> env" where
  "scripted_env rs =
     \<lparr>requests_get =
        (\<lambda>n u t. if n < length rs then rs ! n else Inl (Exc RequestException ''Connection refused'')),
      os_makedirs = (\<lambda>p. None),
      open_wb = (\<lambda>p. None),
      file_write = (\<lambda>p. None),
      os_rmdir = (\<lambda>p. None),
      py_str = (\<lambda>v. []),
      argparse_options = (\<lambda>argv. SystemExit 2),
      stderr_fault = None\<rparr>"

text \<open>
  The series document: chapter 1 is listed under group 1, chapter 2 under another group
  only, and chapter 3 under no group.
\<close>

definition series_doc :: json where
  "series_doc =
     JDict [(''title'', JStr ''Example''),
       (''chapters'', JDict
         [(''1'', JDict [(''groups'', JDict [(''1'', JStr ''/c1/'')])]),
          (''2'', JDict [(''groups'', JDict [(''7'', JStr ''/c2/'')])]),
          (''3'', JDict [(''groups'', JDict [])])])]"

text \<open>Two pages, both downloaded.\<close>

definition complete_run :: "(py_exc + response) list" where
  "complete_run =
     [Inr (json_response series_doc),
      Inr (json_response (JList [JStr ''http://i/a'', JStr ''http://i/b''])),
      Inr (image_response (Some ''image/webp'') ''AAA''),
      Inr (image_response None ''BB'')]"




definition no_pages_key_run :: "(py_exc + response) list" where
  "no_pages_key_run =
     [Inr (json_response series_doc), Inr (json_response (JDict [(''title'', JStr ''one'')]))]"



text \<open>The disk is full: every write fails; or only the write of the second page does.\<close>

definition disk_full :: py_exc where
  "disk_full = Exc OSError ''[Errno 28] No space left on device''"


definition filling_disk_env :: env where
  "filling_disk_env =
     (scripted_env complete_run)
       \<lparr>file_write := (\<lambda>p. if p = ''out/ex_Chapter_1/page_002.png'' then Some (disk_full, 0) else None)\<rparr>"

text \<open>There is no network, and the error stream is a pipe whose reader is gone.\<close>

definition broken_pipe :: py_exc where
  "broken_pipe = Exc OSError ''[Errno 32] Broken pipe''"

definition broken_stderr_env :: env where
  "broken_stderr_env = (scripted_env [])\<lparr>stderr_fault := Some broken_pipe\<rparr>"


text \<open>The world before a run: nothing on disk, nothing printed, nothing requested.\<close>

definition empty_world :: world where
  "empty_world = \<lparr>dirs = [], files = [], stdout = [], stderr = [], requests = []\<rparr>"

text \<open>
  The world after an earlier download of the chapter: the chapter directory exists and
  holds a first page saved as \<^verbatim>\<open>jpg\<close>.
\<close>

definition stale_world :: world where
  "stale_world =
     \<lparr>dirs = [''out'', ''out/ex_Chapter_1''],
      files = [(''out/ex_Chapter_1/page_001.jpg'', ''OLD'')],
      stdout = [], stderr = [], requests = []\<rparr>"

subsection \<open>Vocabulary of the properties\<close>

text \<open>
  The files of a directory. \<open>dir_prefix d\<close> is what \<open>path_join d\<close> puts before a name; a
  path is a file of \<open>d\<close> when it is that prefix followed by a name without a slash, and
  \<open>listdir d w\<close> lists the names of the files of \<open>d\<close> in the world \<open>w\<close>.
\<close>

definition dir_prefix :: "string \<Rightarrow> string" where
  "dir_prefix d = (if d = [] \<or> last d = CHR ''/'' then d else d @ ''/'')"

definition in_dir :: "string \<Rightarrow> string \<Rightarrow> bool" where
  "in_dir d p =
     (take (length (dir_prefix d)) p = dir_prefix d \<and>
      drop (length (dir_prefix d)) p \<noteq> [] \<and>
      CHR ''/'' \<notin> set (drop (length (dir_prefix d)) p))"

definition listdir :: "string \<Rightarrow> world \<Rightarrow> string list" where
  "listdir d w = map (drop (length (dir_prefix d))) (filter (in_dir d) (map fst (files w)))"

text \<open>
  What the environment holds for one page: \<open>page_result E dir n page url\<close> reads the
  oracles the way one iteration of the loop does when its request is the \<open>n\<close>-th of the
  run. The page is saved under a path with a content, or the iteration raises; a failed
  write leaves the part of the file that was written.
\<close>

datatype page_outcome =
    is_Saved: Saved string string
  | Failed py_exc "(string \<times> string) option"

definition page_result :: "env \<Rightarrow> string \<Rightarrow> nat \<Rightarrow> nat \<Rightarrow> json \<Rightarrow> page_outcome" where
  "page_result E dir n page proxy_url =
     (case requests_get E n proxy_url (Some 30) of
        Inl e \<Rightarrow> Failed e None
      | Inr r \<Rightarrow>
          (case raise_for_status r of
             Inl e \<Rightarrow> Failed e None
           | Inr _ \<Rightarrow>
               let path = path_join dir (page_file_name page (infer_extension (resp_content_type r)))
               in (case open_wb E path of
                     Some e \<Rightarrow> Failed e None
                   | None \<Rightarrow>
                       (case file_write E path of
                          Some (e, k) \<Rightarrow> Failed e (Some (path, take k (resp_content r)))
                        | None \<Rightarrow> Saved path (resp_content r)))))"

text \<open>The page is downloaded and saved.\<close>

definition page_ok :: "env \<Rightarrow> string \<Rightarrow> nat \<Rightarrow> nat \<Rightarrow> json \<Rightarrow> bool" where
  "page_ok E dir n page proxy_url = is_Saved (page_result E dir n page proxy_url)"

text \<open>The page fails with a timeout or another request exception (an HTTP error status is one).\<close>

definition page_request_failed :: "env \<Rightarrow> string \<Rightarrow> nat \<Rightarrow> nat \<Rightarrow> json \<Rightarrow> bool" where
  "page_request_failed E dir n page proxy_url =
     (case page_result E dir n page proxy_url of
        Saved p c \<Rightarrow> False
      | Failed e part \<Rightarrow> is_RequestException e)"

text \<open>The line that the loop prints to the error stream for a page that failed with \<open>e\<close>.\<close>

definition page_error_line :: "nat \<Rightarrow> py_exc \<Rightarrow> string" where
  "page_error_line page e =
     (if is_Timeout e then ''Timeout downloading page '' @ show_nat page
      else ''Failed to download page '' @ show_nat page @ '': '' @ exc_str e)"

text \<open>
  The extension that the \<open>n\<close>-th response gives, its body, and the pure part of
  \<open>get_json\<close>: the document that the \<open>n\<close>-th request gives when it is for \<open>u\<close>.
\<close>

definition page_extension :: "env \<Rightarrow> nat \<Rightarrow> json \<Rightarrow> string" where
  "page_extension E n proxy_url =
     (case requests_get E n proxy_url (Some 30) of
        Inl e \<Rightarrow> []
      | Inr r \<Rightarrow> infer_extension (resp_content_type r))"

definition page_content :: "env \<Rightarrow> nat \<Rightarrow> json \<Rightarrow> string" where
  "page_content E n proxy_url =
     (case requests_get E n proxy_url (Some 30) of
        Inl e \<Rightarrow> []
      | Inr r \<Rightarrow> resp_content r)"

definition fetch_document :: "env \<Rightarrow> nat \<Rightarrow> string \<Rightarrow> py_exc + json" where
  "fetch_document E n u =
     (case requests_get E n (JStr u) None of
        Inl e \<Rightarrow> Inl e
      | Inr r \<Rightarrow> (case raise_for_status r of Inl e \<Rightarrow> Inl e | Inr _ \<Rightarrow> resp_json r))"

definition series_api_url :: "string \<Rightarrow> string" where
  "series_api_url series_slug = ''https://cubari.moe/read/api/weebcentral/series/'' @ series_slug @ ''/''"



text \<open>Reading a decimal numeral back.\<close>

definition read_nat :: "string \<Rightarrow> nat" where
  "read_nat s = foldl (\<lambda>acc c. 10 * acc + (of_char c - 48)) 0 s"


text \<open>
  What the loop does after the \<^verbatim>\<open>try\<close> body of the iteration for \<open>page\<close> has ended with
  \<open>r\<close> in the world \<open>w2\<close>: it goes on with the remaining pages, or it is left by the
  exception.
\<close>

definition loop_step :: "env \<Rightarrow> string \<Rightarrow> nat \<Rightarrow> nat \<Rightarrow> (nat \<times> json) list \<Rightarrow> string list
    \<Rightarrow> py_exc + string \<Rightarrow> world \<Rightarrow> (py_exc + string list) \<times> world" where
  "loop_step E d t page ps acc r w2 =
     (case r of
        Inr p \<Rightarrow> download_pages E d t ps (acc @ [p]) w2
      | Inl e \<Rightarrow>
          if is_RequestException e
          then download_pages E d t ps acc (print_err (page_error_line page e) w2)
          else (Inl e, w2))"

section \<open>Properties\<close>

subsection \<open>Page numbers, file names and paths\<close>

text \<open>
  \<open>pad3\<close> can be read back, so the file names of different pages differ whatever their
  extensions are; a page file name has no slash, so the file is in the chapter directory.
\<close>

lemma digit_char_of_char: "d < 10 \<Longrightarrow> of_char (digit_char d) - 48 = (d::nat)"
  by (simp add: digit_char_def)

lemma read_nat_snoc: "read_nat (s @ [c]) = 10 * read_nat s + (of_char c - 48)"
  by (simp add: read_nat_def)

lemma read_nat_show_nat: "read_nat (show_nat n) = n"
proof (induction n rule: show_nat.induct)
  case (1 n)
  show ?case
  proof (cases "n < 10")
    case True
    then show ?thesis
      by (subst show_nat.simps) (simp add: read_nat_def digit_char_of_char)
  next
    case False
    then have "read_nat (show_nat (n div 10)) = n div 10" using 1 by simp
    with False show ?thesis
      by (subst show_nat.simps) (simp add: read_nat_snoc digit_char_of_char)
  qed
qed

lemma read_nat_zeros: "read_nat (replicate k CHR ''0'' @ s) = read_nat s"
proof -
  have "foldl (\<lambda>acc c. 10 * acc + (of_char c - 48)) (0::nat) (replicate k CHR ''0'') = 0"
    by (induction k) simp_all
  then show ?thesis by (simp add: read_nat_def)
qed

lemma read_nat_pad3: "read_nat (pad3 n) = n"
  by (simp add: pad3_def read_nat_zeros read_nat_show_nat)

lemma pad3_inj: "pad3 i = pad3 j \<Longrightarrow> i = j"
  by (metis read_nat_pad3)

lemma digit_char_not_sep: "d < 10 \<Longrightarrow> digit_char d \<noteq> CHR ''.'' \<and> digit_char d \<noteq> CHR ''/''"
proof -
  assume d: "d < 10"
  then have a: "of_char (digit_char d) = 48 + d" by (simp add: digit_char_def)
  have b: "of_char CHR ''.'' = (46::nat)" "of_char CHR ''/'' = (47::nat)" by simp_all
  show ?thesis
  proof (intro conjI notI)
    assume "digit_char d = CHR ''.''"
    then have "of_char (digit_char d) = (46::nat)" by simp
    with a show False by simp
  next
    assume "digit_char d = CHR ''/''"
    then have "of_char (digit_char d) = (47::nat)" by simp
    with a show False by simp
  qed
qed


lemma show_nat_digits: "c \<in> set (show_nat n) \<Longrightarrow> c \<noteq> CHR ''.'' \<and> c \<noteq> CHR ''/''"
proof (induction n arbitrary: c rule: show_nat.induct)
  case (1 n)
  show ?case
  proof (cases "n < 10")
    case True
    then have "show_nat n = [digit_char n]" by (subst show_nat.simps) simp
    with 1(2) have "c = digit_char n" by simp
    with True show ?thesis using digit_char_not_sep [of n] by simp
  next
    case False
    then have "show_nat n = show_nat (n div 10) @ [digit_char (n mod 10)]"
      by (subst show_nat.simps) simp
    with 1(2) have "c \<in> set (show_nat (n div 10) @ [digit_char (n mod 10)])"
      by metis
    then have "c \<in> set (show_nat (n div 10)) \<or> c = digit_char (n mod 10)"
      by auto
    then show ?thesis
    proof
      assume "c \<in> set (show_nat (n div 10))"
      then show ?thesis using 1(1) [OF False] by simp
    next
      assume "c = digit_char (n mod 10)"
      then show ?thesis using digit_char_not_sep [of "n mod 10"] by simp
    qed
  qed
qed

lemma zero_not_sep: "CHR ''0'' \<noteq> CHR ''.'' \<and> CHR ''0'' \<noteq> CHR ''/''"
  by simp

lemma pad3_digits: "c \<in> set (pad3 n) \<Longrightarrow> c \<noteq> CHR ''.'' \<and> c \<noteq> CHR ''/''"
proof -
  assume "c \<in> set (pad3 n)"
  then have "c \<in> set (replicate (3 - length (show_nat n)) CHR ''0'') \<or> c \<in> set (show_nat n)"
    by (simp add: pad3_def)
  then have "c = CHR ''0'' \<or> c \<in> set (show_nat n)"
    by (cases "3 - length (show_nat n) = 0") simp_all
  then show ?thesis
  proof
    assume "c = CHR ''0''"
    then show ?thesis by simp
  next
    assume "c \<in> set (show_nat n)"
    then show ?thesis by (rule show_nat_digits)
  qed
qed

lemma show_nat_nonempty: "show_nat n \<noteq> []"
  by (subst show_nat.simps) simp

lemma pad3_nonempty: "pad3 n \<noteq> []"
  by (simp add: pad3_def show_nat_nonempty)

lemma takeWhile_sep: "\<forall>c \<in> set xs. c \<noteq> x \<Longrightarrow> takeWhile (\<lambda>c. c \<noteq> x) (xs @ x # ys) = xs"
  by (induction xs) simp_all

lemma page_file_name_inj: "page_file_name i e = page_file_name j e' \<Longrightarrow> i = j"
proof -
  assume "page_file_name i e = page_file_name j e'"
  then have eq: "pad3 i @ CHR ''.'' # e = pad3 j @ CHR ''.'' # e'"
    by (simp add: page_file_name_def)
  have "takeWhile (\<lambda>c. c \<noteq> CHR ''.'') (pad3 i @ CHR ''.'' # e) = pad3 i"
    by (rule takeWhile_sep) (use pad3_digits in blast)
  moreover have "takeWhile (\<lambda>c. c \<noteq> CHR ''.'') (pad3 j @ CHR ''.'' # e') = pad3 j"
    by (rule takeWhile_sep) (use pad3_digits in blast)
  ultimately have "pad3 i = pad3 j" using eq by simp
  then show ?thesis by (rule pad3_inj)
qed

lemma infer_extension_cases:
  "infer_extension ct \<in> {''jpg'', ''png'', ''webp'', ''gif''}"
  unfolding infer_extension_def by (cases ct) (simp_all del: str_contains.simps)

lemma infer_extension_no_slash: "CHR ''/'' \<notin> set (infer_extension ct)"
proof -
  have "infer_extension ct = ''jpg'' \<or> infer_extension ct = ''png'' \<or>
        infer_extension ct = ''webp'' \<or> infer_extension ct = ''gif''"
    using infer_extension_cases [of ct] by simp
  then show ?thesis by (elim disjE) simp_all
qed

lemma page_file_name_no_slash: "CHR ''/'' \<notin> set (page_file_name page (infer_extension ct))"
proof -
  have "CHR ''/'' \<notin> set (pad3 page)" using pad3_digits [of "CHR ''/''" page] by blast
  then show ?thesis
    using infer_extension_no_slash [of ct] by (simp add: page_file_name_def)
qed

lemma page_file_name_nonempty: "page_file_name page e \<noteq> []"
  by (simp add: page_file_name_def)

lemma path_join_prefix: "b = [] \<or> hd b \<noteq> CHR ''/'' \<Longrightarrow> path_join a b = dir_prefix a @ b"
  by (auto simp: path_join_def dir_prefix_def)

lemma no_slash_hd: "CHR ''/'' \<notin> set b \<Longrightarrow> b = [] \<or> hd b \<noteq> CHR ''/''"
  by (cases b) auto

lemma in_dir_path_join: "b \<noteq> [] \<Longrightarrow> CHR ''/'' \<notin> set b \<Longrightarrow> in_dir d (path_join d b)"
  using path_join_prefix [OF no_slash_hd, of b d] by (simp add: in_dir_def)

lemma drop_path_join: "CHR ''/'' \<notin> set b \<Longrightarrow> drop (length (dir_prefix d)) (path_join d b) = b"
  using path_join_prefix [OF no_slash_hd, of b d] by simp

lemma page_path_inj:
  "path_join d (page_file_name i (infer_extension ct)) =
   path_join d (page_file_name j (infer_extension ct')) \<Longrightarrow> i = j"
proof -
  assume eq: "path_join d (page_file_name i (infer_extension ct)) =
              path_join d (page_file_name j (infer_extension ct'))"
  have a: "drop (length (dir_prefix d)) (path_join d (page_file_name i (infer_extension ct))) =
           page_file_name i (infer_extension ct)"
    by (rule drop_path_join [OF page_file_name_no_slash])
  have b: "drop (length (dir_prefix d)) (path_join d (page_file_name j (infer_extension ct'))) =
           page_file_name j (infer_extension ct')"
    by (rule drop_path_join [OF page_file_name_no_slash])
  have "page_file_name i (infer_extension ct) = page_file_name j (infer_extension ct')"
    using a b eq by metis
  then show ?thesis by (rule page_file_name_inj)
qed



lemma isalnum_not_slash: "\<not> isalnum CHR ''/''"
  by (simp add: isalnum_def)

lemma safe_slug_chars: "c \<in> set (safe_slug s) \<Longrightarrow> c \<noteq> CHR ''/''"
proof -
  assume "c \<in> set (safe_slug s)"
  then have "c \<in> set (rev (dropWhile isspace (rev (filter (\<lambda>c. isalnum c \<or> c = CHR ''_'' \<or> c = CHR ''-'') s))))"
    by (simp add: safe_slug_def rstrip_def)
  then have "c \<in> set (dropWhile isspace (rev (filter (\<lambda>c. isalnum c \<or> c = CHR ''_'' \<or> c = CHR ''-'') s)))"
    by simp
  then have "c \<in> set (rev (filter (\<lambda>c. isalnum c \<or> c = CHR ''_'' \<or> c = CHR ''-'') s))"
    by (rule set_dropWhileD)
  then have "c \<in> set (filter (\<lambda>c. isalnum c \<or> c = CHR ''_'' \<or> c = CHR ''-'') s)"
    by simp
  then show ?thesis using isalnum_not_slash by auto
qed

lemma chapter_name_hd: "hd (safe_slug s @ ''_Chapter_'' @ c) \<noteq> CHR ''/''"
proof (cases "safe_slug s")
  case Nil
  then show ?thesis by simp
next
  case (Cons a as)
  then have "a \<in> set (safe_slug s)" by simp
  then have "a \<noteq> CHR ''/''" by (rule safe_slug_chars)
  with Cons show ?thesis by simp
qed

lemma chapter_specific_dir_length: "length out < length (chapter_specific_dir s c out)"
proof -
  have "chapter_specific_dir s c out = dir_prefix out @ (safe_slug s @ ''_Chapter_'' @ c)"
    unfolding chapter_specific_dir_def by (rule path_join_prefix) (use chapter_name_hd in blast)
  moreover have "length out \<le> length (dir_prefix out)" by (simp add: dir_prefix_def)
  ultimately show ?thesis by simp
qed

lemma parents_length: "p \<in> set (parents q) \<Longrightarrow> length p < length q"
  by (auto simp: parents_def)

lemma chapter_dir_not_made_by_output:
  "chapter_specific_dir s c out \<notin> set (parents out @ [out])"
  using chapter_specific_dir_length [of out s c] parents_length [of "chapter_specific_dir s c out" out]
  by auto

subsection \<open>The extension of a saved page\<close>

lemma infer_extension_examples:
  "infer_extension (Some ''image/webp'') = ''webp'' \<and> infer_extension None = ''png'' \<and>
   infer_extension (Some ''image/jpeg'') = ''jpg'' \<and> infer_extension (Some ''image/gif'') = ''gif'' \<and>
   infer_extension (Some ''text/html'') = ''png'' \<and> infer_extension (Some []) = ''png''"
  by (simp add: infer_extension_def)


subsection \<open>One page, and the loop over the pages\<close>

text \<open>
  The iteration for a page does what \<open>page_result\<close> says and sends exactly one request;
  the lemmas on the loop follow by induction on the list of pages, with the number of
  requests sent so far as the index of the next one.
\<close>

lemma download_page_result:
  "download_page E d page u w =
     (case page_result E d (length (requests w)) page u of
        Saved p c \<Rightarrow>
          (Inr p, print_out (''Saved page '' @ show_nat page @ '' to '' @ p)
                    (w\<lparr>requests := requests w @ [(u, Some 30)],
                       files := AList.update p c (files w)\<rparr>))
      | Failed e None \<Rightarrow> (Inl e, w\<lparr>requests := requests w @ [(u, Some 30)]\<rparr>)
      | Failed e (Some pc) \<Rightarrow>
          (Inl e, w\<lparr>requests := requests w @ [(u, Some 30)],
                     files := AList.update (fst pc) (snd pc) (files w)\<rparr>))"
  by (simp add: download_page_def page_result_def http_get_def write_file_def Let_def
        split: sum.splits option.splits prod.splits)

lemma download_page_dirs: "dirs (snd (download_page E d page u w)) = dirs w"
  by (simp add: download_page_result print_out_def split: page_outcome.splits option.splits)

lemma download_page_requests:
  "requests (snd (download_page E d page u w)) = requests w @ [(u, Some 30)]"
  by (simp add: download_page_result print_out_def split: page_outcome.splits option.splits)

lemma download_page_stderr: "stderr (snd (download_page E d page u w)) = stderr w"
  by (simp add: download_page_result print_out_def split: page_outcome.splits option.splits)

lemma download_page_Inr:
  "fst (download_page E d page u w) = Inr p \<longleftrightarrow>
   (\<exists>c. page_result E d (length (requests w)) page u = Saved p c)"
  by (auto simp: download_page_result split: page_outcome.splits option.splits)

lemma download_page_Inl:
  "fst (download_page E d page u w) = Inl e \<longleftrightarrow>
   (\<exists>part. page_result E d (length (requests w)) page u = Failed e part)"
  by (auto simp: download_page_result split: page_outcome.splits option.splits)

lemma download_page_eqD:
  assumes "download_page E d page u w = (r, w2)"
  shows "dirs w2 = dirs w" and "requests w2 = requests w @ [(u, Some 30)]"
    and "stderr w2 = stderr w"
  using assms download_page_dirs [of E d page u w] download_page_requests [of E d page u w]
    download_page_stderr [of E d page u w] by simp_all

lemma print_simps [simp]:
  "dirs (print_out l w) = dirs w" "dirs (print_err l w) = dirs w"
  "files (print_out l w) = files w" "files (print_err l w) = files w"
  "requests (print_out l w) = requests w" "requests (print_err l w) = requests w"
  "stderr (print_out l w) = stderr w" "stderr (print_err l w) = stderr w @ [l]"
  "stdout (print_out l w) = stdout w @ [l]" "stdout (print_err l w) = stdout w"
  by (simp_all add: print_out_def print_err_def)

lemma download_pages_dirs: "dirs (snd (download_pages E d t ps acc w)) = dirs w"
proof (induction ps arbitrary: acc w)
  case Nil
  show ?case by simp
next
  case (Cons pu ps)
  obtain page u where pu: "pu = (page, u)" by (cases pu)
  show ?case
    unfolding pu
    by (simp add: Let_def Cons.IH download_page_eqD split: prod.splits sum.splits)
qed


lemma download_pages_requests_prefix:
  "take (length (requests w)) (requests (snd (download_pages E d t ps acc w))) = requests w"
proof (induction ps arbitrary: acc w)
  case Nil
  show ?case by simp
next
  case (Cons pu ps)
  obtain page u where pu: "pu = (page, u)" by (cases pu)
  have step: "take (length (requests w)) (requests (snd (download_pages E d t ps a w2))) = requests w"
    if "requests w2 = requests w @ [(u, Some 30)]" for a w2
  proof -
    have "take (length (requests w2)) (requests (snd (download_pages E d t ps a w2))) = requests w2"
      by (rule Cons.IH)
    then have "take (length (requests w)) (take (length (requests w2)) (requests (snd (download_pages E d t ps a w2))))
               = take (length (requests w)) (requests w2)" by simp
    with that show ?thesis by (simp add: min_def)
  qed
  show ?case
    unfolding pu
    by (simp add: Let_def step download_page_eqD split: prod.splits sum.splits)
qed

lemma download_pages_raises:
  "download_pages E d t ps acc w = (Inl e, w') \<Longrightarrow> \<not> is_RequestException e"
proof (induction ps arbitrary: acc w)
  case Nil
  then show ?case by simp
next
  case (Cons pu ps)
  obtain page u where pu: "pu = (page, u)" by (cases pu)
  from Cons.prems show ?case
    unfolding pu
    by (auto simp: Let_def dest: Cons.IH split: prod.splits sum.splits if_splits)
qed


lemma shift_pages:
  assumes "\<forall>j<length (pu # ps). P (n + j) ((pu # ps) ! j)"
  shows "P n pu" and "\<forall>j<length ps. P (Suc n + j) (ps ! j)"
proof -
  from assms have "P (n + 0) ((pu # ps) ! 0)" by blast
  then show "P n pu" by simp
  show "\<forall>j<length ps. P (Suc n + j) (ps ! j)"
  proof (intro allI impI)
    fix j assume "j < length ps"
    then have "Suc j < length (pu # ps)" by simp
    with assms have "P (n + Suc j) ((pu # ps) ! Suc j)" by blast
    then show "P (Suc n + j) (ps ! j)" by simp
  qed
qed

lemma download_page_cases:
  assumes "download_page E d page u w = (r, w2)" and "length (requests w) = n"
  shows "(\<exists>p c. r = Inr p \<and> page_result E d n page u = Saved p c) \<or>
         (\<exists>e part. r = Inl e \<and> page_result E d n page u = Failed e part)"
proof (cases r)
  case (Inr p)
  with assms show ?thesis using download_page_Inr [of E d page u w p] by auto
next
  case (Inl e)
  with assms show ?thesis using download_page_Inl [of E d page u w e] by auto
qed

lemma is_Timeout_request: "is_Timeout e \<Longrightarrow> is_RequestException e"
  by (cases e) simp

lemma download_pages_step:
  "\<exists>l. \<forall>r w2 acc. download_page E d page u (print_out l w) = (r, w2) \<longrightarrow>
         download_pages E d t ((page, u) # ps) acc w = loop_step E d t page ps acc r w2"
proof (intro exI allI impI)
  fix r w2 acc
  assume "download_page E d page u (print_out (''Downloading page '' @ show_nat page @ ''/'' @
            show_nat t @ '' from '' @ py_format E u @ ''...'') w) = (r, w2)"
  then show "download_pages E d t ((page, u) # ps) acc w = loop_step E d t page ps acc r w2"
    by (auto simp: loop_step_def Let_def page_error_line_def is_Timeout_request split: sum.splits)
qed

lemma download_pages_completes:
  "length (requests w) = n \<Longrightarrow>
   \<forall>j<length ps. page_ok E d (n + j) (fst (ps ! j)) (snd (ps ! j)) \<or>
                  page_request_failed E d (n + j) (fst (ps ! j)) (snd (ps ! j)) \<Longrightarrow>
   \<exists>fs. fst (download_pages E d t ps acc w) = Inr fs"
proof (induction ps arbitrary: acc w n)
  case Nil
  show ?case by simp
next
  case (Cons pu ps)
  obtain page u where pu: "pu = (page, u)" by (cases pu)
  let ?P = "\<lambda>k x. page_ok E d k (fst x) (snd x) \<or> page_request_failed E d k (fst x) (snd x)"
  from Cons.prems(2) have all: "\<forall>j<length (pu # ps). ?P (n + j) ((pu # ps) ! j)" by simp
  have first: "page_ok E d n page u \<or> page_request_failed E d n page u"
    using shift_pages(1) [of pu ps ?P n, OF all] pu by simp
  have rest: "\<forall>j<length ps. ?P (Suc n + j) (ps ! j)"
    by (rule shift_pages(2) [of pu ps ?P n, OF all])
  obtain l where step: "\<And>r w2 acc. download_page E d page u (print_out l w) = (r, w2) \<Longrightarrow>
       download_pages E d t ((page, u) # ps) acc w = loop_step E d t page ps acc r w2"
    using download_pages_step [of E d page u w t ps] by blast
  have n1: "length (requests (print_out l w)) = n" using Cons.prems(1) by simp
  obtain r w2 where dp: "download_page E d page u (print_out l w) = (r, w2)"
    by (cases "download_page E d page u (print_out l w)")
  have n2: "length (requests w2) = Suc n" using download_page_eqD(2) [OF dp] n1 by simp
  have ih: "\<exists>fs. fst (download_pages E d t ps a w3) = Inr fs" if "length (requests w3) = Suc n" for a w3
    using Cons.IH [OF that] rest by simp
  from download_page_cases [OF dp n1] show ?case
  proof (elim disjE exE conjE)
    fix p c assume "r = Inr p" "page_result E d n page u = Saved p c"
    then show ?thesis
      using ih [OF n2] unfolding pu step [OF dp] by (simp add: loop_step_def)
  next
    fix e part assume r: "r = Inl e" and pr: "page_result E d n page u = Failed e part"
    with first have re: "is_RequestException e"
      by (simp add: page_ok_def page_request_failed_def)
    have n3: "length (requests (print_err l w2)) = Suc n" for l using n2 by simp
    show ?thesis
      using r re ih [OF n3] unfolding pu step [OF dp] by (simp add: loop_step_def)
  qed
qed


lemma loop_cases [consumes 1, case_names saved skipped aborted]:
  assumes n: "length (requests w) = n"
  obtains
    (saved) p c w2 where "page_result E d n page u = Saved p c"
      "download_pages E d t ((page, u) # ps) acc w = download_pages E d t ps (acc @ [p]) w2"
      "requests w2 = requests w @ [(u, Some 30)]" "dirs w2 = dirs w"
      "files w2 = AList.update p c (files w)" "stderr w2 = stderr w"
  | (skipped) e part w2 where "page_result E d n page u = Failed e part" "is_RequestException e"
      "download_pages E d t ((page, u) # ps) acc w = download_pages E d t ps acc w2"
      "requests w2 = requests w @ [(u, Some 30)]" "dirs w2 = dirs w"
      "files w2 = (case part of None \<Rightarrow> files w | Some pc \<Rightarrow> AList.update (fst pc) (snd pc) (files w))"
      "stderr w2 = stderr w @ [page_error_line page e]"
  | (aborted) e part w2 where "page_result E d n page u = Failed e part" "\<not> is_RequestException e"
      "download_pages E d t ((page, u) # ps) acc w = (Inl e, w2)"
      "requests w2 = requests w @ [(u, Some 30)]" "dirs w2 = dirs w"
      "files w2 = (case part of None \<Rightarrow> files w | Some pc \<Rightarrow> AList.update (fst pc) (snd pc) (files w))"
      "stderr w2 = stderr w"
proof -
  obtain l where step: "\<And>r w2 acc. download_page E d page u (print_out l w) = (r, w2) \<Longrightarrow>
       download_pages E d t ((page, u) # ps) acc w = loop_step E d t page ps acc r w2"
    using download_pages_step [of E d page u w t ps] by blast
  have n1: "length (requests (print_out l w)) = n" using n by simp
  obtain r w2 where dp: "download_page E d page u (print_out l w) = (r, w2)"
    by (cases "download_page E d page u (print_out l w)")
  have w2: "w2 = snd (download_page E d page u (print_out l w))" using dp by simp
  note res = download_page_result [of E d page u "print_out l w", unfolded n1 dp]
  show thesis
  proof (cases "page_result E d n page u")
    case (Saved p c)
    with res have r: "r = Inr p"
      and w2': "w2 = print_out (''Saved page '' @ show_nat page @ '' to '' @ p)
                  ((print_out l w)\<lparr>requests := requests (print_out l w) @ [(u, Some 30)],
                     files := AList.update p c (files (print_out l w))\<rparr>)"
      by simp_all
    show thesis
    proof (rule saved [OF Saved])
      show "download_pages E d t ((page, u) # ps) acc w = download_pages E d t ps (acc @ [p]) w2"
        using step [OF dp] r by (simp add: loop_step_def)
      show "requests w2 = requests w @ [(u, Some 30)]" by (simp add: w2')
      show "dirs w2 = dirs w" by (simp add: w2')
      show "files w2 = AList.update p c (files w)" by (simp add: w2')
      show "stderr w2 = stderr w" by (simp add: w2')
    qed
  next
    case (Failed e part)
    with res have r: "r = Inl e"
      and w2': "w2 = (case part of
                  None \<Rightarrow> (print_out l w)\<lparr>requests := requests (print_out l w) @ [(u, Some 30)]\<rparr>
                | Some pc \<Rightarrow> (print_out l w)\<lparr>requests := requests (print_out l w) @ [(u, Some 30)],
                     files := AList.update (fst pc) (snd pc) (files (print_out l w))\<rparr>)"
      by (simp_all split: option.splits)
    have rq: "requests w2 = requests w @ [(u, Some 30)]" and dr: "dirs w2 = dirs w"
      and se: "stderr w2 = stderr w"
      and fl: "files w2 = (case part of None \<Rightarrow> files w | Some pc \<Rightarrow> AList.update (fst pc) (snd pc) (files w))"
      by (simp_all add: w2' split: option.splits)
    show thesis
    proof (cases "is_RequestException e")
      case True
      show thesis
      proof (rule skipped [OF Failed True])
        show "download_pages E d t ((page, u) # ps) acc w =
              download_pages E d t ps acc (print_err (page_error_line page e) w2)"
          using step [OF dp] r True by (simp add: loop_step_def)
      qed (simp_all add: rq dr se fl)
    next
      case False
      show thesis
      proof (rule aborted [OF Failed False])
        show "download_pages E d t ((page, u) # ps) acc w = (Inl e, w2)"
          using step [OF dp] r False by (simp add: loop_step_def)
      qed (simp_all add: rq dr se fl)
    qed
  qed
qed


lemma all_shift:
  "(\<forall>j<length (x # xs). P (n + j) ((x # xs) ! j)) \<longleftrightarrow>
   P n x \<and> (\<forall>j<length xs. P (Suc n + j) (xs ! j))"
  by (auto simp: less_Suc_eq_0_disj)

lemma ex_shift:
  "(\<exists>j<length (x # xs). P (n + j) ((x # xs) ! j)) \<longleftrightarrow>
   P n x \<or> (\<exists>j<length xs. P (Suc n + j) (xs ! j))"
  by (auto simp: less_Suc_eq_0_disj)

lemma download_pages_count:
  "download_pages E d t ps acc w = (Inr fs, w') \<Longrightarrow> length (requests w) = n \<Longrightarrow>
   length acc \<le> length fs \<and>
   (length acc < length fs \<longleftrightarrow>
      (\<exists>j<length ps. page_ok E d (n + j) (fst (ps ! j)) (snd (ps ! j))))"
proof (induction ps arbitrary: acc w n)
  case Nil
  then show ?case by simp
next
  case (Cons pu ps)
  obtain page u where pu: "pu = (page, u)" by (cases pu)
  let ?P = "\<lambda>k x. page_ok E d k (fst x) (snd x)"
  note ex = ex_shift [of pu ps ?P n]
  from Cons.prems(2) show ?case
  proof (cases rule: loop_cases [where E=E and d=d and page=page and u=u and t=t and ps=ps and acc=acc])
    case (saved p c w2)
    then have run: "download_pages E d t ps (acc @ [p]) w2 = (Inr fs, w')"
      and n2: "length (requests w2) = Suc n"
      using Cons.prems pu by simp_all
    have "length (acc @ [p]) \<le> length fs" using Cons.IH [OF run n2] by blast
    moreover have "?P n pu" using saved(1) pu by (simp add: page_ok_def)
    ultimately show ?thesis using ex by simp
  next
    case (skipped e part w2)
    then have run: "download_pages E d t ps acc w2 = (Inr fs, w')"
      and n2: "length (requests w2) = Suc n"
      using Cons.prems pu by simp_all
    have "\<not> ?P n pu" using skipped(1) pu by (simp add: page_ok_def)
    then show ?thesis using ex Cons.IH [OF run n2] by simp
  next
    case (aborted e part w2)
    then show ?thesis using Cons.prems pu by simp
  qed
qed



lemma page_result_Saved:
  "page_result E d n page u = Saved p c \<Longrightarrow>
   p = path_join d (page_file_name page (page_extension E n u)) \<and> c = page_content E n u"
  by (auto simp: page_result_def page_extension_def page_content_def Let_def
        split: sum.splits option.splits prod.splits)

lemma page_result_part:
  "page_result E d n page u = Failed e (Some pc) \<Longrightarrow>
   fst pc = path_join d (page_file_name page (page_extension E n u))"
  by (auto simp: page_result_def page_extension_def Let_def
        split: sum.splits option.splits prod.splits)

lemma page_extension_infer: "page_extension E n u = [] \<or> (\<exists>ct. page_extension E n u = infer_extension ct)"
  by (auto simp: page_extension_def split: sum.splits)

text \<open>The paths that the iteration for a page can write.\<close>

lemma page_result_Saved_path:
  "page_result E d n page u = Saved p c \<Longrightarrow>
   \<exists>ct. p = path_join d (page_file_name page (infer_extension ct))"
  by (auto simp: page_result_def Let_def split: sum.splits option.splits prod.splits)








lemma update_fresh: "k \<notin> fst ` set al \<Longrightarrow> AList.update k v al = al @ [(k, v)]"
  by (induction al) auto

lemma listdir_append:
  assumes "files w2 = files w @ [(p, c)]" and "in_dir d p"
  shows "listdir d w2 = listdir d w @ [drop (length (dir_prefix d)) p]"
  using assms by (simp add: listdir_def)

lemma page_result_Saved_name:
  assumes "page_result E d n page u = Saved p c"
  shows "in_dir d p" and "drop (length (dir_prefix d)) p = page_file_name page (page_extension E n u)"
proof -
  obtain ct where p: "p = path_join d (page_file_name page (infer_extension ct))"
    using page_result_Saved_path [OF assms] by blast
  have p': "p = path_join d (page_file_name page (page_extension E n u))"
    using page_result_Saved [OF assms] by simp
  show "in_dir d p"
    unfolding p by (rule in_dir_path_join [OF page_file_name_nonempty page_file_name_no_slash])
  have "path_join d (page_file_name page (page_extension E n u)) =
        dir_prefix d @ page_file_name page (page_extension E n u)"
    by (intro path_join_prefix) (simp add: page_file_name_def)
  then show "drop (length (dir_prefix d)) p = page_file_name page (page_extension E n u)"
    using p' by simp
qed

lemma download_pages_listdir:
  "download_pages E d t ps acc w = (res, w') \<Longrightarrow> length (requests w) = n \<Longrightarrow>
   distinct (map fst ps) \<Longrightarrow>
   \<forall>j<length ps. page_ok E d (n + j) (fst (ps ! j)) (snd (ps ! j)) \<Longrightarrow>
   \<forall>pu\<in>set ps. \<forall>ct. path_join d (page_file_name (fst pu) (infer_extension ct)) \<notin> fst ` set (files w) \<Longrightarrow>
   listdir d w' = listdir d w @
     map (\<lambda>j. page_file_name (fst (ps ! j)) (page_extension E (n + j) (snd (ps ! j)))) [0..<length ps]"
proof (induction ps arbitrary: acc w n)
  case Nil
  then show ?case by simp
next
  case (Cons pu ps)
  obtain page u where pu: "pu = (page, u)" by (cases pu)
  let ?P = "\<lambda>k x. page_ok E d k (fst x) (snd x)"
  have ok0: "page_ok E d n page u" and oks: "\<forall>j<length ps. ?P (Suc n + j) (ps ! j)"
    using Cons.prems(4) all_shift [of pu ps ?P n] pu by simp_all
  have dist: "distinct (map fst ps)" and notin: "page \<notin> fst ` set ps"
    using Cons.prems(3) pu by auto
  from Cons.prems(2) show ?case
  proof (cases rule: loop_cases [where E=E and d=d and page=page and u=u and t=t and ps=ps and acc=acc])
    case (saved p c w2)
    then have run: "download_pages E d t ps (acc @ [p]) w2 = (res, w')"
      and n2: "length (requests w2) = Suc n"
      using Cons.prems pu by simp_all
    obtain ct where p: "p = path_join d (page_file_name page (infer_extension ct))"
      using page_result_Saved_path [OF saved(1)] by blast
    have "p \<notin> fst ` set (files w)" using Cons.prems(5) pu p by simp
    then have f2: "files w2 = files w @ [(p, c)]" using saved(5) by (simp add: update_fresh)
    have l2: "listdir d w2 = listdir d w @ [page_file_name page (page_extension E n u)]"
      using listdir_append [OF f2 page_result_Saved_name(1) [OF saved(1)]]
        page_result_Saved_name(2) [OF saved(1)] by simp
    have fresh: "\<forall>pu\<in>set ps. \<forall>ct'. path_join d (page_file_name (fst pu) (infer_extension ct')) \<notin> fst ` set (files w2)"
    proof (intro ballI allI notI)
      fix pu' ct' assume in_ps: "pu' \<in> set ps"
        and "path_join d (page_file_name (fst pu') (infer_extension ct')) \<in> fst ` set (files w2)"
      then have "path_join d (page_file_name (fst pu') (infer_extension ct')) \<in> fst ` set (files w) \<or>
                 path_join d (page_file_name (fst pu') (infer_extension ct')) = p"
        using f2 by auto
      then show False
      proof
        assume "path_join d (page_file_name (fst pu') (infer_extension ct')) \<in> fst ` set (files w)"
        then show False using Cons.prems(5) in_ps by simp
      next
        assume "path_join d (page_file_name (fst pu') (infer_extension ct')) = p"
        then have "fst pu' = page" using p page_path_inj [of d "fst pu'" ct' page ct] by simp
        with in_ps notin show False by auto
      qed
    qed
    have "listdir d w' = listdir d w2 @
       map (\<lambda>j. page_file_name (fst (ps ! j)) (page_extension E (Suc n + j) (snd (ps ! j)))) [0..<length ps]"
      by (rule Cons.IH [OF run n2 dist oks fresh])
    then show ?thesis using l2 pu by (simp add: map_upt_Suc del: upt_Suc)
  next
    case (skipped e part w2)
    then show ?thesis using ok0 by (simp add: page_ok_def)
  next
    case (aborted e part w2)
    then show ?thesis using ok0 by (simp add: page_ok_def)
  qed
qed

subsection \<open>The steps before and after the loop\<close>


lemma get_json_eq:
  "get_json E u w =
     (fetch_document E (length (requests w)) u, w\<lparr>requests := requests w @ [(JStr u, None)]\<rparr>)"
  by (simp add: get_json_def fetch_document_def http_get_def split: sum.splits)

lemma makedirs_cases:
  "makedirs E p w = (r, w') \<Longrightarrow>
   files w' = files w \<and> requests w' = requests w \<and> stderr w' = stderr w \<and> stdout w' = stdout w \<and>
   ((\<exists>e. r = Inl e \<and> os_makedirs E p = Some e \<and> dirs w' = dirs w) \<or>
    (r = Inr () \<and> os_makedirs E p = None \<and>
     dirs w' = dirs w @ filter (\<lambda>q. q \<notin> set (dirs w)) (parents p @ [p])))"
  by (auto simp: makedirs_def split: option.splits)

lemma makedirs_set:
  "makedirs E p w = (Inr x, w') \<Longrightarrow> set (dirs w') = set (dirs w) \<union> set (parents p) \<union> {p}"
  by (auto simp: makedirs_def split: option.splits if_splits)

lemma select_group_url_world:
  "select_group_url c chapter_data w = (r, w') \<Longrightarrow>
   dirs w' = dirs w \<and> files w' = files w \<and> requests w' = requests w"
  by (auto simp: select_group_url_def Let_def split: sum.splits if_splits)

lemma fetch_chapter_details_world:
  assumes "fetch_chapter_details E s c out w = (r, w')"
  shows "files w' = files w"
    and "set (dirs w) \<subseteq> set (dirs w')"
    and "set (dirs w') \<subseteq> set (dirs w) \<union> set (parents out) \<union> {out}"
    and "take (length (requests w)) (requests w') = requests w"
proof -
  obtain r0 w0 where mk: "makedirs E out w = (r0, w0)" by (cases "makedirs E out w")
  note m = makedirs_cases [OF mk]
  have "files w' = files w \<and> set (dirs w) \<subseteq> set (dirs w') \<and>
        set (dirs w') \<subseteq> set (dirs w) \<union> set (parents out) \<union> {out} \<and>
        take (length (requests w)) (requests w') = requests w"
  proof (cases r0)
    case (Inl e)
    with assms mk m show ?thesis by (auto simp: fetch_chapter_details_def)
  next
    case (Inr x)
    have d0: "set (dirs w0) = set (dirs w) \<union> set (parents out) \<union> {out}"
      using makedirs_set mk Inr by blast
    have f0: "files w0 = files w" and q0: "requests w0 = requests w" using m by simp_all
    from assms mk Inr have
      "dirs w' = dirs w0 \<and> files w' = files w0 \<and>
       take (length (requests w0)) (requests w') = requests w0"
      by (auto simp: fetch_chapter_details_def get_json_eq Let_def print_out_def print_err_def
            split: sum.splits if_splits prod.splits flow.splits
            dest!: select_group_url_world)
    with d0 f0 q0 show ?thesis by auto
  qed
  then show "files w' = files w"
    and "set (dirs w) \<subseteq> set (dirs w')"
    and "set (dirs w') \<subseteq> set (dirs w) \<union> set (parents out) \<union> {out}"
    and "take (length (requests w)) (requests w') = requests w" by blast+
qed


lemma finish_download_some:
  "fs \<noteq> [] \<Longrightarrow> \<exists>l. finish_download E c d t fs w = (Inr (Some d), print_out l w)"
  by (auto simp: finish_download_def Let_def)


lemma process_chapter_details_empty:
  assumes "get_image_urls details w = (Next image_urls, w)" and "py_items image_urls = Inr []"
  shows "process_chapter_details E s c out details w =
         (Inr None, print_out (''No pages found for chapter '' @ c) w)"
  using assms by (simp add: process_chapter_details_def)

text \<open>The world in which the loop starts, when the chapter directory could be made.\<close>

lemma process_chapter_details_pages:
  assumes "get_image_urls details w = (Next image_urls, w)" and "py_items image_urls = Inr items"
    and "items \<noteq> []" and "os_makedirs E (chapter_specific_dir s c out) = None"
  shows "\<exists>w4. requests w4 = requests w \<and> files w4 = files w \<and> stderr w4 = stderr w \<and>
           set (dirs w4) = set (dirs w) \<union> set (parents (chapter_specific_dir s c out)) \<union>
             {chapter_specific_dir s c out} \<and>
           process_chapter_details E s c out details w =
             (case download_pages E (chapter_specific_dir s c out) (length items)
                     (zip [1..<Suc (length items)] items) [] w4 of
                (Inl e, w5) \<Rightarrow> (Inl e, w5)
              | (Inr fs, w5) \<Rightarrow>
                  finish_download E c (chapter_specific_dir s c out) (length items) fs w5)"
proof -
  define d where "d = chapter_specific_dir s c out"
  define w2 where "w2 = print_out (''Found '' @ show_nat (length items) @ '' pages for chapter '' @
                c @ ''.'') w"
  obtain r3 w3 where mk: "makedirs E d w2 = (r3, w3)" by (cases "makedirs E d w2")
  have r3: "r3 = Inr ()" using makedirs_cases [OF mk] assms(4) by (auto simp: d_def)
  define w4 where "w4 = print_out (''Output directory: '' @ d) w3"
  have "requests w4 = requests w" "files w4 = files w" "stderr w4 = stderr w"
    using makedirs_cases [OF mk] by (simp_all add: w4_def w2_def)
  moreover have "set (dirs w4) = set (dirs w) \<union> set (parents d) \<union> {d}"
    using makedirs_set [of E d w2 "()" w3] mk r3 by (simp add: w4_def w2_def)
  moreover have "process_chapter_details E s c out details w =
             (case download_pages E d (length items) (zip [1..<Suc (length items)] items) [] w4 of
                (Inl e, w5) \<Rightarrow> (Inl e, w5)
              | (Inr fs, w5) \<Rightarrow> finish_download E c d (length items) fs w5)"
    using assms(1,2,3) mk r3
    by (simp add: process_chapter_details_def Let_def d_def [symmetric] w2_def w4_def)
  ultimately show ?thesis unfolding d_def by blast
qed

subsection \<open>A chapter whose pages are all downloaded\<close>

lemma enum_length: "length (zip [1..<Suc (length items)] items) = length items"
  by (simp del: upt_Suc)

lemma enum_nth:
  "j < length items \<Longrightarrow> zip [1..<Suc (length items)] items ! j = (Suc j, items ! j)"
  by (simp add: nth_append del: upt_Suc)

lemma enum_distinct: "distinct (map fst (zip [1..<Suc (length items)] items))"
  by (simp del: upt_Suc)

lemma enum_all:
  "(\<forall>j<length (zip [1..<Suc (length items)] items).
      P (n + j) (fst (zip [1..<Suc (length items)] items ! j)) (snd (zip [1..<Suc (length items)] items ! j)))
   \<longleftrightarrow> (\<forall>i<length items. P (n + i) (Suc i) (items ! i))"
  by (simp add: enum_nth del: upt_Suc)


lemma listdir_files: "files w' = files w \<Longrightarrow> listdir d w' = listdir d w"
  by (simp add: listdir_def)

lemma listdir_empty: "listdir d w = [] \<Longrightarrow> p \<in> fst ` set (files w) \<Longrightarrow> \<not> in_dir d p"
  by (auto simp: listdir_def filter_empty_conv)

lemma download_chapter_try_Next:
  "fetch_chapter_details E s c out w = (Next details, w1) \<Longrightarrow>
   download_chapter_try E s c out w = process_chapter_details E s c out details w1"
  by (simp add: download_chapter_try_def)

lemma download_chapter_Inr:
  "download_chapter_try E s c out w = (Inr r, w') \<Longrightarrow> download_chapter E s c out w = (Inr r, w')"
  by (simp add: download_chapter_def)

lemma page_names_distinct:
  "distinct (map (\<lambda>i. page_file_name (Suc i) (f i)) [0..<n])"
proof -
  have "inj_on (\<lambda>i. page_file_name (Suc i) (f i)) (set [0..<n])"
    by (rule inj_onI) (use page_file_name_inj in blast)
  then show ?thesis by (simp add: distinct_map)
qed

text \<open>
  C1, as amended. A chapter whose page list has \<open>N \<ge> 1\<close> entries, all of which are
  downloaded and saved, and whose chapter directory holds no file before the run:
  \<^verbatim>\<open>download_chapter\<close> returns the path of the chapter directory, the directory exists
  after the run, and its files are exactly the \<open>N\<close> files \<^verbatim>\<open>page_<i>.<ext>\<close> for
  \<open>i = 1, ..., N\<close>, where the index is written with \<^verbatim>\<open>{page:03d}\<close> (\<open>pad3\<close>: padded with
  zeros to three digits) and the extension is the one of the page's response. The names
  are pairwise different.
\<close>

theorem all_pages_saved:
  assumes fetch: "fetch_chapter_details E s c out w = (Next details, w1)"
    and urls: "get_image_urls details w1 = (Next image_urls, w1)"
    and items: "py_items image_urls = Inr items" and ne: "items \<noteq> []"
    and mk: "os_makedirs E (chapter_specific_dir s c out) = None"
    and ok: "\<forall>i<length items.
               page_ok E (chapter_specific_dir s c out) (length (requests w1) + i) (Suc i) (items ! i)"
    and fresh: "listdir (chapter_specific_dir s c out) w = []"
  shows "fst (download_chapter E s c out w) = Inr (Some (chapter_specific_dir s c out)) \<and>
         chapter_specific_dir s c out \<in> set (dirs (snd (download_chapter E s c out w))) \<and>
         listdir (chapter_specific_dir s c out) (snd (download_chapter E s c out w)) =
           map (\<lambda>i. ''page_'' @ pad3 (Suc i) @ ''.'' @
                      page_extension E (length (requests w1) + i) (items ! i))
               [0..<length items] \<and>
         length (listdir (chapter_specific_dir s c out) (snd (download_chapter E s c out w))) =
           length items \<and>
         distinct (listdir (chapter_specific_dir s c out) (snd (download_chapter E s c out w)))"
proof -
  define d where "d = chapter_specific_dir s c out"
  define ps where "ps = zip [1..<Suc (length items)] items"
  define n where "n = length (requests w1)"
  obtain w4 where w4: "requests w4 = requests w1" "files w4 = files w1"
      "set (dirs w4) = set (dirs w1) \<union> set (parents d) \<union> {d}"
    and run: "process_chapter_details E s c out details w1 =
             (case download_pages E d (length items) ps [] w4 of
                (Inl e, w5) \<Rightarrow> (Inl e, w5)
              | (Inr fs, w5) \<Rightarrow> finish_download E c d (length items) fs w5)"
    using process_chapter_details_pages [OF urls items ne mk] unfolding d_def ps_def by blast
  have n4: "length (requests w4) = n" using w4(1) by (simp add: n_def)
  obtain res w5 where loop: "download_pages E d (length items) ps [] w4 = (res, w5)"
    by (cases "download_pages E d (length items) ps [] w4")
  have oks: "\<forall>j<length ps. page_ok E d (n + j) (fst (ps ! j)) (snd (ps ! j))"
    unfolding ps_def using ok enum_all [where P="page_ok E d" and n=n and items=items]
    by (simp add: d_def n_def)
  then have "\<forall>j<length ps. page_ok E d (n + j) (fst (ps ! j)) (snd (ps ! j)) \<or>
                page_request_failed E d (n + j) (fst (ps ! j)) (snd (ps ! j))" by blast
  from download_pages_completes [OF n4 this, of "length items" "[]"] loop
  obtain fs where res: "res = Inr fs" by auto
  have "length ps = length items" unfolding ps_def by (rule enum_length)
  with ne oks have "\<exists>j<length ps. page_ok E d (n + j) (fst (ps ! j)) (snd (ps ! j))"
    by (metis length_greater_0_conv)
  with download_pages_count [OF loop [unfolded res] n4] have "fs \<noteq> []" by auto
  then obtain l where fin: "finish_download E c d (length items) fs w5 = (Inr (Some d), print_out l w5)"
    using finish_download_some by blast
  have dc: "download_chapter E s c out w = (Inr (Some d), print_out l w5)"
    using download_chapter_Inr [of E s c out w "Some d" "print_out l w5"]
      download_chapter_try_Next [OF fetch] run loop res fin by simp
  have d5: "dirs w5 = dirs w4" using download_pages_dirs [of E d "length items" ps "[]" w4] loop by simp
  have f1: "files w1 = files w" by (rule fetch_chapter_details_world(1) [OF fetch])
  have fr: "\<forall>pu\<in>set ps. \<forall>ct. path_join d (page_file_name (fst pu) (infer_extension ct)) \<notin> fst ` set (files w4)"
  proof (intro ballI allI notI)
    fix pu ct assume "path_join d (page_file_name (fst pu) (infer_extension ct)) \<in> fst ` set (files w4)"
    then have "\<not> in_dir d (path_join d (page_file_name (fst pu) (infer_extension ct)))"
      using listdir_empty [of d w] fresh w4(2) f1 by (simp add: d_def)
    then show False
      using in_dir_path_join [OF page_file_name_nonempty page_file_name_no_slash] by blast
  qed
  have l4: "listdir d w4 = []" using fresh listdir_files [of w4 w d] w4(2) f1 by (simp add: d_def)
  have "listdir d w5 = listdir d w4 @
     map (\<lambda>j. page_file_name (fst (ps ! j)) (page_extension E (n + j) (snd (ps ! j)))) [0..<length ps]"
    by (rule download_pages_listdir [OF loop n4 _ oks fr]) (simp only: ps_def enum_distinct)
  also have "map (\<lambda>j. page_file_name (fst (ps ! j)) (page_extension E (n + j) (snd (ps ! j)))) [0..<length ps] =
             map (\<lambda>i. page_file_name (Suc i) (page_extension E (n + i) (items ! i))) [0..<length items]"
    unfolding ps_def by (rule map_cong) (simp_all add: enum_nth enum_length del: upt_Suc)
  finally have ls: "listdir d (print_out l w5) =
      map (\<lambda>i. page_file_name (Suc i) (page_extension E (n + i) (items ! i))) [0..<length items]"
    using l4 by (simp add: listdir_def)
  have "d \<in> set (dirs (print_out l w5))" using d5 w4(3) by simp
  moreover have "distinct (listdir d (print_out l w5))"
    unfolding ls by (rule page_names_distinct)
  moreover have "length (listdir d (print_out l w5)) = length items" unfolding ls by simp
  ultimately show ?thesis
    using dc ls unfolding d_def n_def by (simp add: page_file_name_def)
qed

text \<open>The run of the two-page chapter: both pages are saved.\<close>

theorem all_pages_saved_witness:
  "fst (download_chapter (scripted_env complete_run) ''ex'' ''1'' ''out'' empty_world) =
     Inr (Some ''out/ex_Chapter_1'') \<and>
   ''out/ex_Chapter_1'' \<in>
     set (dirs (snd (download_chapter (scripted_env complete_run) ''ex'' ''1'' ''out'' empty_world))) \<and>
   listdir ''out/ex_Chapter_1''
     (snd (download_chapter (scripted_env complete_run) ''ex'' ''1'' ''out'' empty_world)) =
     [''page_001.webp'', ''page_002.png'']"
proof -
  define E where "E = scripted_env complete_run"
  define w1 where "w1 = snd (fetch_chapter_details E ''ex'' ''1'' ''out'' empty_world)"
  define items where "items = [JStr ''http://i/a'', JStr ''http://i/b'']"
  have d: "chapter_specific_dir ''ex'' ''1'' ''out'' = ''out/ex_Chapter_1''"
    by code_simp
  have "fst (fetch_chapter_details E ''ex'' ''1'' ''out'' empty_world) = Next (JList items)"
    unfolding E_def items_def by code_simp
  then have fetch: "fetch_chapter_details E ''ex'' ''1'' ''out'' empty_world = (Next (JList items), w1)"
    by (simp add: w1_def prod_eq_iff)
  have urls: "get_image_urls (JList items) w1 = (Next (JList items), w1)"
    by (simp add: get_image_urls_def)
  have its: "py_items (JList items) = Inr items" by simp
  have ne: "items \<noteq> []" by (simp add: items_def)
  have mk: "os_makedirs E (chapter_specific_dir ''ex'' ''1'' ''out'') = None"
    by (simp add: E_def scripted_env_def)
  have n: "length (requests w1) = 2" unfolding w1_def E_def by code_simp
  have p1: "page_ok E ''out/ex_Chapter_1'' 2 1 (JStr ''http://i/a'')" unfolding E_def by code_simp
  have p2: "page_ok E ''out/ex_Chapter_1'' 3 2 (JStr ''http://i/b'')" unfolding E_def by code_simp
  have ok: "\<forall>i<length items.
      page_ok E (chapter_specific_dir ''ex'' ''1'' ''out'') (length (requests w1) + i) (Suc i) (items ! i)"
    using p1 p2 by (simp add: d n items_def less_Suc_eq eval_nat_numeral)
  have fresh: "listdir (chapter_specific_dir ''ex'' ''1'' ''out'') empty_world = []"
    by (simp add: listdir_def empty_world_def)
  have e1: "page_extension E 2 (JStr ''http://i/a'') = ''webp''" unfolding E_def by code_simp
  have e2: "page_extension E 3 (JStr ''http://i/b'') = ''png''" unfolding E_def by code_simp
  have q1: "pad3 1 = ''001''" by code_simp
  have q2: "pad3 2 = ''002''" by code_simp
  have names: "map (\<lambda>i. ''page_'' @ pad3 (Suc i) @ ''.'' @
                      page_extension E (length (requests w1) + i) (items ! i))
               [0..<length items] = [''page_001.webp'', ''page_002.png'']"
    using e1 e2 q1 q2 by (simp add: n items_def eval_nat_numeral)
  show ?thesis
    using all_pages_saved [OF fetch urls its ne mk ok fresh] names
    unfolding d E_def by simp
qed

text \<open>
  C1 as stated fails when the chapter directory is there before the run
  (\<^verbatim>\<open>os.makedirs\<close> with \<^verbatim>\<open>exist_ok=True\<close> takes it as it is): after an earlier download
  that saved the first page as \<^verbatim>\<open>jpg\<close>, the run of the two-page chapter downloads both
  pages, returns the directory, and the directory holds three files.
\<close>

theorem all_pages_saved_counterexample:
  "page_ok (scripted_env complete_run) ''out/ex_Chapter_1'' 2 1 (JStr ''http://i/a'') \<and>
   page_ok (scripted_env complete_run) ''out/ex_Chapter_1'' 3 2 (JStr ''http://i/b'') \<and>
   fst (download_chapter (scripted_env complete_run) ''ex'' ''1'' ''out'' stale_world) =
     Inr (Some ''out/ex_Chapter_1'') \<and>
   listdir ''out/ex_Chapter_1''
     (snd (download_chapter (scripted_env complete_run) ''ex'' ''1'' ''out'' stale_world)) =
     [''page_001.jpg'', ''page_001.webp'', ''page_002.png'']"
proof (intro conjI)
  show "page_ok (scripted_env complete_run) ''out/ex_Chapter_1'' 2 1 (JStr ''http://i/a'')"
    by code_simp
  show "page_ok (scripted_env complete_run) ''out/ex_Chapter_1'' 3 2 (JStr ''http://i/b'')"
    by code_simp
  show "fst (download_chapter (scripted_env complete_run) ''ex'' ''1'' ''out'' stale_world) =
     Inr (Some ''out/ex_Chapter_1'')"
    by code_simp
  show "listdir ''out/ex_Chapter_1''
     (snd (download_chapter (scripted_env complete_run) ''ex'' ''1'' ''out'' stale_world)) =
     [''page_001.jpg'', ''page_001.webp'', ''page_002.png'']"
    by code_simp
qed

subsection \<open>A chapter of which some pages fail\<close>








subsection \<open>A chapter of which no page is downloaded\<close>




subsection \<open>A chapter without pages\<close>

lemma fetch_keeps_chapter_dir:
  assumes "fetch_chapter_details E s c out w = (r, w1)"
  shows "chapter_specific_dir s c out \<in> set (dirs w1) \<longleftrightarrow> chapter_specific_dir s c out \<in> set (dirs w)"
  using fetch_chapter_details_world(2,3) [OF assms] chapter_dir_not_made_by_output [of s c out]
  by auto

lemma no_pages_found:
  assumes "fetch_chapter_details E s c out w = (Next details, w1)"
    and "get_image_urls details w1 = (Next image_urls, w1)"
    and "py_items image_urls = Inr []"
  shows "download_chapter E s c out w =
           (Inr None, print_out (''No pages found for chapter '' @ c) w1)"
  using download_chapter_Inr [of E s c out w None "print_out (''No pages found for chapter '' @ c) w1"]
    download_chapter_try_Next [OF assms(1)] process_chapter_details_empty [OF assms(2,3)]
  by simp



text \<open>
  C10. A page-list document that is a dictionary without the key \<^verbatim>\<open>pages\<close> is treated as
  an empty page list: the procedure does with it what it does with the empty list (same
  result, same world), it returns \<^verbatim>\<open>None\<close>, the run makes no chapter directory, and
  nothing is printed to the error stream for it: the shape is not reported as unexpected.
\<close>

theorem missing_pages_key:
  assumes fetch: "fetch_chapter_details E s c out w = (Next (JDict kvs), w1)"
    and nokey: "map_of kvs ''pages'' = None"
  shows "download_chapter E s c out w =
           (Inr None, print_out (''No pages found for chapter '' @ c) w1) \<and>
         process_chapter_details E s c out (JDict kvs) w1 =
           process_chapter_details E s c out (JList []) w1 \<and>
         (chapter_specific_dir s c out \<in> set (dirs (snd (download_chapter E s c out w))) \<longleftrightarrow>
          chapter_specific_dir s c out \<in> set (dirs w)) \<and>
         stderr (snd (download_chapter E s c out w)) = stderr w1"
proof -
  have urls: "get_image_urls (JDict kvs) w1 = (Next (JList []), w1)"
    using nokey by (simp add: get_image_urls_def)
  have urls': "get_image_urls (JList []) w1 = (Next (JList []), w1)"
    by (simp add: get_image_urls_def)
  have its: "py_items (JList []) = Inr []" by simp
  have "process_chapter_details E s c out (JDict kvs) w1 =
        process_chapter_details E s c out (JList []) w1"
    using process_chapter_details_empty [OF urls its] process_chapter_details_empty [OF urls' its]
    by simp
  then show ?thesis
    using no_pages_found [OF fetch urls its] fetch_keeps_chapter_dir [OF fetch] by simp
qed

text \<open>The run of a chapter whose page-list document has a title and no pages.\<close>

theorem missing_pages_key_witness:
  "fst (download_chapter (scripted_env no_pages_key_run) ''ex'' ''1'' ''out'' empty_world) = Inr None \<and>
   ''out/ex_Chapter_1'' \<notin>
     set (dirs (snd (download_chapter (scripted_env no_pages_key_run) ''ex'' ''1'' ''out'' empty_world))) \<and>
   stderr (snd (download_chapter (scripted_env no_pages_key_run) ''ex'' ''1'' ''out'' empty_world)) = []"
proof -
  define E where "E = scripted_env no_pages_key_run"
  define w1 where "w1 = snd (fetch_chapter_details E ''ex'' ''1'' ''out'' empty_world)"
  have d: "chapter_specific_dir ''ex'' ''1'' ''out'' = ''out/ex_Chapter_1''"
    by code_simp
  have "fst (fetch_chapter_details E ''ex'' ''1'' ''out'' empty_world) = Next (JDict [(''title'', JStr ''one'')])"
    unfolding E_def by code_simp
  then have fetch: "fetch_chapter_details E ''ex'' ''1'' ''out'' empty_world =
      (Next (JDict [(''title'', JStr ''one'')]), w1)"
    by (simp add: w1_def prod_eq_iff)
  have nokey: "map_of [(''title'', JStr ''one'')] ''pages'' = None" by simp
  have se: "stderr w1 = []" unfolding w1_def E_def by code_simp
  note res = missing_pages_key [OF fetch nokey]
  have a: "fst (download_chapter E ''ex'' ''1'' ''out'' empty_world) = Inr None"
    using res by simp
  have "chapter_specific_dir ''ex'' ''1'' ''out'' \<in>
          set (dirs (snd (download_chapter E ''ex'' ''1'' ''out'' empty_world))) \<longleftrightarrow>
        chapter_specific_dir ''ex'' ''1'' ''out'' \<in> set (dirs empty_world)"
    using res by blast
  then have b: "''out/ex_Chapter_1'' \<notin> set (dirs (snd (download_chapter E ''ex'' ''1'' ''out'' empty_world)))"
    by (simp add: d empty_world_def)
  have "stderr (snd (download_chapter E ''ex'' ''1'' ''out'' empty_world)) = stderr w1"
    using res by blast
  then have c: "stderr (snd (download_chapter E ''ex'' ''1'' ''out'' empty_world)) = []"
    using se by simp
  show ?thesis using a b c unfolding E_def by simp
qed

subsection \<open>Exceptions and the exit status\<close>

lemma download_chapter_returns: "\<exists>r. fst (download_chapter E s c out w) = Inr r"
  by (cases "download_chapter_try E s c out w")
     (auto simp: download_chapter_def split: sum.splits)

lemma select_group_url_Return:
  "select_group_url c chapter_data w = (Return r, w') \<Longrightarrow> r = None"
  by (auto simp: select_group_url_def Let_def split: sum.splits if_splits)

lemma fetch_chapter_details_Return:
  "fetch_chapter_details E s c out w = (Return r, w') \<Longrightarrow> r = None"
  by (auto simp: fetch_chapter_details_def Let_def
        split: sum.splits if_splits prod.splits flow.splits dest: select_group_url_Return)

lemma get_image_urls_Return: "get_image_urls details w = (Return r, w') \<Longrightarrow> r = None"
  by (cases details) (auto simp: get_image_urls_def split: sum.splits)

lemma finish_download_Some:
  "finish_download E c d t fs w = (Inr (Some p), w') \<Longrightarrow> p = d \<and> fs \<noteq> []"
  by (auto simp: finish_download_def Let_def split: if_splits prod.splits sum.splits)

lemma process_chapter_details_Some:
  "process_chapter_details E s c out details w = (Inr (Some p), w') \<Longrightarrow>
   p = chapter_specific_dir s c out"
  by (auto simp: process_chapter_details_def Let_def
        split: sum.splits if_splits prod.splits flow.splits
        dest: get_image_urls_Return finish_download_Some)

lemma download_chapter_Some:
  assumes "fst (download_chapter E s c out w) = Inr (Some p)"
  shows "p = chapter_specific_dir s c out"
proof -
  obtain r w' where body: "download_chapter_try E s c out w = (r, w')"
    by (cases "download_chapter_try E s c out w")
  with assms have r: "r = Inr (Some p)"
    by (cases r) (simp_all add: download_chapter_def)
  obtain x w1 where fetch: "fetch_chapter_details E s c out w = (x, w1)"
    by (cases "fetch_chapter_details E s c out w")
  show ?thesis
  proof (cases x)
    case (Raise e)
    with body fetch r show ?thesis by (simp add: download_chapter_try_def)
  next
    case (Return r')
    with body fetch r fetch_chapter_details_Return [of E s c out w r' w1] show ?thesis
      by (simp add: download_chapter_try_def)
  next
    case (Next details)
    with body fetch r have "process_chapter_details E s c out details w1 = (Inr (Some p), w')"
      by (simp add: download_chapter_try_def)
    then show ?thesis by (rule process_chapter_details_Some)
  qed
qed




subsection \<open>Exceptions raised by the body, and by the handlers\<close>

lemma download_pages_aborts:
  "length (requests w) = n \<Longrightarrow> k < length ps \<Longrightarrow>
   \<forall>j<k. page_ok E d (n + j) (fst (ps ! j)) (snd (ps ! j)) \<or>
          page_request_failed E d (n + j) (fst (ps ! j)) (snd (ps ! j)) \<Longrightarrow>
   page_result E d (n + k) (fst (ps ! k)) (snd (ps ! k)) = Failed e part \<Longrightarrow>
   \<not> is_RequestException e \<Longrightarrow>
   fst (download_pages E d t ps acc w) = Inl e"
proof (induction ps arbitrary: acc w n k)
  case Nil
  then show ?case by simp
next
  case (Cons pu ps)
  obtain page u where pu: "pu = (page, u)" by (cases pu)
  show ?case
  proof (cases k)
    case 0
    with Cons.prems(4) pu have pr: "page_result E d n page u = Failed e part" by simp
    from Cons.prems(1) show ?thesis
    proof (cases rule: loop_cases [where E=E and d=d and page=page and u=u and t=t and ps=ps and acc=acc])
      case (saved p c w2)
      with pr show ?thesis by simp
    next
      case (skipped e' part' w2)
      with pr Cons.prems(5) show ?thesis by simp
    next
      case (aborted e' part' w2)
      with pr pu show ?thesis by simp
    qed
  next
    case (Suc k')
    have k': "k' < length ps" using Cons.prems(2) Suc by simp
    have first: "page_ok E d n page u \<or> page_request_failed E d n page u"
      using Cons.prems(3) Suc pu by force
    have rest: "\<forall>j<k'. page_ok E d (Suc n + j) (fst (ps ! j)) (snd (ps ! j)) \<or>
          page_request_failed E d (Suc n + j) (fst (ps ! j)) (snd (ps ! j))"
    proof (intro allI impI)
      fix j assume "j < k'"
      then have "Suc j < k" using Suc by simp
      with Cons.prems(3) have "page_ok E d (n + Suc j) (fst ((pu # ps) ! Suc j)) (snd ((pu # ps) ! Suc j)) \<or>
          page_request_failed E d (n + Suc j) (fst ((pu # ps) ! Suc j)) (snd ((pu # ps) ! Suc j))"
        by blast
      then show "page_ok E d (Suc n + j) (fst (ps ! j)) (snd (ps ! j)) \<or>
          page_request_failed E d (Suc n + j) (fst (ps ! j)) (snd (ps ! j))" by simp
    qed
    have pk: "page_result E d (Suc n + k') (fst (ps ! k')) (snd (ps ! k')) = Failed e part"
      using Cons.prems(4) Suc by simp
    have ih: "fst (download_pages E d t ps a w2) = Inl e" if "length (requests w2) = Suc n" for a w2
      by (rule Cons.IH [OF that k' rest pk Cons.prems(5)])
    from Cons.prems(1) show ?thesis
    proof (cases rule: loop_cases [where E=E and d=d and page=page and u=u and t=t and ps=ps and acc=acc])
      case (saved p c w2)
      then have "length (requests w2) = Suc n" using Cons.prems(1) by simp
      from ih [OF this] saved(2) pu show ?thesis by simp
    next
      case (skipped e' part' w2)
      then have "length (requests w2) = Suc n" using Cons.prems(1) by simp
      from ih [OF this] skipped(3) pu show ?thesis by simp
    next
      case (aborted e' part' w2)
      with first show ?thesis by (simp add: page_ok_def page_request_failed_def)
    qed
  qed
qed

lemma makedirs_fails:
  "os_makedirs E out = Some e \<Longrightarrow>
   download_chapter E s c out w = (Inr None, w\<lparr>stderr := stderr w @ [handler_message e]\<rparr>)"
  by (simp add: download_chapter_def download_chapter_try_def fetch_chapter_details_def
        makedirs_def print_err_def)

lemma series_request_fails:
  assumes "os_makedirs E out = None"
    and "requests_get E (length (requests w)) (JStr (series_api_url s)) None = Inl e"
  shows "fst (download_chapter E s c out w) = Inr None \<and>
         last (stderr (snd (download_chapter E s c out w))) = handler_message e"
proof -
  have m: "makedirs E out w = (Inr (), snd (makedirs E out w))"
    using assms(1) by (simp add: makedirs_def)
  have r0: "requests (snd (makedirs E out w)) = requests w"
    by (simp add: makedirs_def split: option.splits)
  have fd: "fetch_document E (length (requests w)) (series_api_url s) = Inl e"
    using assms(2) by (simp add: fetch_document_def)
  have "\<exists>w1. fetch_chapter_details E s c out w = (Raise e, w1)"
    unfolding fetch_chapter_details_def
    using fd r0 by (subst m) (simp add: get_json_eq series_api_url_def Let_def)
  then obtain w1 where "download_chapter_try E s c out w = (Inl e, w1)"
    by (auto simp: download_chapter_try_def)
  then show ?thesis by (simp add: download_chapter_def)
qed

lemma page_aborts:
  assumes fetch: "fetch_chapter_details E s c out w = (Next details, w1)"
    and urls: "get_image_urls details w1 = (Next image_urls, w1)"
    and items: "py_items image_urls = Inr items"
    and mk: "os_makedirs E (chapter_specific_dir s c out) = None"
    and k: "k < length items"
    and before: "\<forall>i<k.
        page_ok E (chapter_specific_dir s c out) (length (requests w1) + i) (Suc i) (items ! i) \<or>
        page_request_failed E (chapter_specific_dir s c out) (length (requests w1) + i) (Suc i) (items ! i)"
    and at: "page_result E (chapter_specific_dir s c out) (length (requests w1) + k) (Suc k) (items ! k)
               = Failed e part"
    and other: "\<not> is_RequestException e"
  shows "fst (download_chapter E s c out w) = Inr None \<and>
         last (stderr (snd (download_chapter E s c out w))) = handler_message e"
proof -
  define d where "d = chapter_specific_dir s c out"
  define ps where "ps = zip [1..<Suc (length items)] items"
  define n where "n = length (requests w1)"
  have ne: "items \<noteq> []" using k by auto
  obtain w4 where w4: "requests w4 = requests w1"
    and run: "process_chapter_details E s c out details w1 =
             (case download_pages E d (length items) ps [] w4 of
                (Inl e, w5) \<Rightarrow> (Inl e, w5)
              | (Inr fs, w5) \<Rightarrow> finish_download E c d (length items) fs w5)"
    using process_chapter_details_pages [OF urls items ne mk] unfolding d_def ps_def by blast
  have n4: "length (requests w4) = n" using w4 by (simp add: n_def)
  have kp: "k < length ps" unfolding ps_def using k by (simp only: enum_length)
  have bf: "\<forall>j<k. page_ok E d (n + j) (fst (ps ! j)) (snd (ps ! j)) \<or>
          page_request_failed E d (n + j) (fst (ps ! j)) (snd (ps ! j))"
  proof (intro allI impI)
    fix j assume "j < k"
    then have "j < length items" using k by simp
    then have "ps ! j = (Suc j, items ! j)" unfolding ps_def by (rule enum_nth)
    with before \<open>j < k\<close> show "page_ok E d (n + j) (fst (ps ! j)) (snd (ps ! j)) \<or>
          page_request_failed E d (n + j) (fst (ps ! j)) (snd (ps ! j))"
      by (simp add: d_def n_def)
  qed
  have "ps ! k = (Suc k, items ! k)" unfolding ps_def using k by (rule enum_nth)
  with at have atk: "page_result E d (n + k) (fst (ps ! k)) (snd (ps ! k)) = Failed e part"
    by (simp add: d_def n_def)
  have "fst (download_pages E d (length items) ps [] w4) = Inl e"
    by (rule download_pages_aborts [OF n4 kp bf atk other])
  then obtain w5 where "download_pages E d (length items) ps [] w4 = (Inl e, w5)"
    by (cases "download_pages E d (length items) ps [] w4") simp
  then have "download_chapter_try E s c out w = (Inl e, w5)"
    using download_chapter_try_Next [OF fetch] run by simp
  then show ?thesis by (simp add: download_chapter_def)
qed


text \<open>
  C8, as amended. When printing to the error stream does not fail, no exception leaves
  \<^verbatim>\<open>download_chapter\<close>, for every input and every behaviour of the network and the
  filesystem: the caller gets \<^verbatim>\<open>None\<close> or the path of the chapter directory, and every
  exception that the body of the \<^verbatim>\<open>try\<close> raises is reported by one line on the error
  stream and turned into \<^verbatim>\<open>None\<close>. In particular that is what happens when the output
  directory cannot be made, when the request for the series fails, and when an
  iteration of the loop raises an exception that is no request exception (the pages
  before it being saved or skipped): the line of the handler is the last line of the
  error stream.
\<close>

theorem exceptions_caught_and_reported:
  assumes sound: "stderr_fault E = None"
  shows "(\<exists>r. download_chapter_io E s c out w = Inr r) \<and>
         download_chapter_io E s c out w = fst (download_chapter E s c out w) \<and>
         (download_chapter_io E s c out w = Inr None \<or>
          download_chapter_io E s c out w = Inr (Some (chapter_specific_dir s c out))) \<and>
         (\<forall>e w1. download_chapter_try E s c out w = (Inl e, w1) \<longrightarrow>
            download_chapter E s c out w =
              (Inr None, w1\<lparr>stderr := stderr w1 @ [handler_message e]\<rparr>)) \<and>
         (\<forall>e. os_makedirs E out = Some e \<longrightarrow>
            download_chapter E s c out w =
              (Inr None, w\<lparr>stderr := stderr w @ [handler_message e]\<rparr>)) \<and>
         (\<forall>e. os_makedirs E out = None \<and>
              requests_get E (length (requests w)) (JStr (series_api_url s)) None = Inl e \<longrightarrow>
            fst (download_chapter E s c out w) = Inr None \<and>
            last (stderr (snd (download_chapter E s c out w))) = handler_message e) \<and>
         (\<forall>details w1 image_urls items k e part.
            fetch_chapter_details E s c out w = (Next details, w1) \<and>
            get_image_urls details w1 = (Next image_urls, w1) \<and>
            py_items image_urls = Inr items \<and>
            os_makedirs E (chapter_specific_dir s c out) = None \<and>
            k < length items \<and>
            (\<forall>i<k. page_ok E (chapter_specific_dir s c out) (length (requests w1) + i) (Suc i) (items ! i) \<or>
                   page_request_failed E (chapter_specific_dir s c out) (length (requests w1) + i) (Suc i)
                     (items ! i)) \<and>
            page_result E (chapter_specific_dir s c out) (length (requests w1) + k) (Suc k) (items ! k)
              = Failed e part \<and>
            \<not> is_RequestException e \<longrightarrow>
            fst (download_chapter E s c out w) = Inr None \<and>
            last (stderr (snd (download_chapter E s c out w))) = handler_message e)"
proof -
  have io: "download_chapter_io E s c out w = fst (download_chapter E s c out w)"
    using sound by (simp add: download_chapter_io_def)
  obtain r where r: "fst (download_chapter E s c out w) = Inr r"
    using download_chapter_returns [of E s c out w] by blast
  have some: "r = None \<or> r = Some (chapter_specific_dir s c out)"
  proof (cases r)
    case None
    then show ?thesis by simp
  next
    case (Some p)
    with r download_chapter_Some [of E s c out w p] show ?thesis by simp
  qed
  have body: "\<forall>e w1. download_chapter_try E s c out w = (Inl e, w1) \<longrightarrow>
            download_chapter E s c out w =
              (Inr None, w1\<lparr>stderr := stderr w1 @ [handler_message e]\<rparr>)"
    by (simp add: download_chapter_def print_err_def)
  show ?thesis
    unfolding io
    using r some body makedirs_fails [of E out _ s c w]
      series_request_fails [of E out w s _ c]
      page_aborts [of E s c out w]
    by (intro conjI) (blast+)
qed

text \<open>
  Three runs with a sound error stream: without network, the request exception of the
  first request is reported by the first handler; a series document without chapters
  gives a \<^verbatim>\<open>KeyError\<close>, reported by the second; a disk that fills up at the second page
  gives an \<^verbatim>\<open>OSError\<close>, reported by the third.
\<close>

theorem exceptions_caught_and_reported_witness:
  "download_chapter_io (scripted_env []) ''ex'' ''1'' ''out'' empty_world = Inr None \<and>
   stderr (snd (download_chapter (scripted_env []) ''ex'' ''1'' ''out'' empty_world)) =
     [''Network error occurred: Connection refused''] \<and>
   download_chapter_io (scripted_env [Inr (json_response (JDict []))]) ''ex'' ''1'' ''out''
     empty_world = Inr None \<and>
   stderr (snd (download_chapter (scripted_env [Inr (json_response (JDict []))]) ''ex'' ''1'' ''out''
          empty_world)) = [''Data structure error: Missing key '' @ quoted ''chapters''] \<and>
   download_chapter_io filling_disk_env ''ex'' ''1'' ''out'' empty_world = Inr None \<and>
   stderr (snd (download_chapter filling_disk_env ''ex'' ''1'' ''out'' empty_world)) =
     [''Unexpected error: [Errno 28] No space left on device'']"
proof -
  have run: "download_chapter_io E ''ex'' ''1'' ''out'' empty_world = Inr None \<and>
             stderr (snd (download_chapter E ''ex'' ''1'' ''out'' empty_world)) = [handler_message e]"
    if s: "stderr_fault E = None"
      and a: "fst (download_chapter_try E ''ex'' ''1'' ''out'' empty_world) = Inl e"
      and b: "stderr (snd (download_chapter_try E ''ex'' ''1'' ''out'' empty_world)) = []" for E e
  proof -
    note res = exceptions_caught_and_reported [OF s, of "''ex''" "''1''" "''out''" empty_world]
    have "download_chapter_try E ''ex'' ''1'' ''out'' empty_world =
          (Inl e, snd (download_chapter_try E ''ex'' ''1'' ''out'' empty_world))"
      using a by (simp add: prod_eq_iff)
    then have dc: "download_chapter E ''ex'' ''1'' ''out'' empty_world =
          (Inr None, (snd (download_chapter_try E ''ex'' ''1'' ''out'' empty_world))
             \<lparr>stderr := stderr (snd (download_chapter_try E ''ex'' ''1'' ''out'' empty_world)) @
                 [handler_message e]\<rparr>)"
      using res by blast
    have "download_chapter_io E ''ex'' ''1'' ''out'' empty_world =
          fst (download_chapter E ''ex'' ''1'' ''out'' empty_world)"
      using res by blast
    then show ?thesis using dc b by simp
  qed
  have s1: "stderr_fault (scripted_env rs) = None" for rs by (simp add: scripted_env_def)
  have s3: "stderr_fault filling_disk_env = None"
    by (simp add: filling_disk_env_def scripted_env_def)
  have a1: "fst (download_chapter_try (scripted_env []) ''ex'' ''1'' ''out'' empty_world) =
     Inl (Exc RequestException ''Connection refused'')" by code_simp
  have b1: "stderr (snd (download_chapter_try (scripted_env []) ''ex'' ''1'' ''out'' empty_world)) = []"
    by code_simp
  have a2: "fst (download_chapter_try (scripted_env [Inr (json_response (JDict []))]) ''ex'' ''1'' ''out''
          empty_world) = Inl (Exc KeyError (quoted ''chapters''))" by code_simp
  have b2: "stderr (snd (download_chapter_try (scripted_env [Inr (json_response (JDict []))]) ''ex'' ''1'' ''out''
          empty_world)) = []" by code_simp
  have a3: "fst (download_chapter_try filling_disk_env ''ex'' ''1'' ''out'' empty_world) =
     Inl (Exc OSError ''[Errno 28] No space left on device'')" by code_simp
  have b3: "stderr (snd (download_chapter_try filling_disk_env ''ex'' ''1'' ''out'' empty_world)) = []"
    by code_simp
  have m1: "handler_message (Exc RequestException ''Connection refused'') =
            ''Network error occurred: Connection refused''" by code_simp
  have m2: "handler_message (Exc KeyError (quoted ''chapters'')) =
            ''Data structure error: Missing key '' @ quoted ''chapters''" by code_simp
  have m3: "handler_message (Exc OSError ''[Errno 28] No space left on device'') =
            ''Unexpected error: [Errno 28] No space left on device''" by code_simp
  show ?thesis
    using run [OF s1 a1 b1] run [OF s1 a2 b2] run [OF s3 a3 b3] m1 m2 m3 by simp
qed

text \<open>
  C8 as stated fails when the error stream is broken: without network, the body of the
  \<^verbatim>\<open>try\<close> prints nothing to the error stream and raises the request exception of the
  first request; the handler of line 116 catches it, and its own print (line 117) raises
  the \<^verbatim>\<open>OSError\<close> of the stream, which no clause catches: an exception leaves
  \<^verbatim>\<open>download_chapter\<close>.
\<close>

theorem exceptions_caught_and_reported_counterexample:
  "fst (download_chapter_try broken_stderr_env ''ex'' ''1'' ''out'' empty_world) =
     Inl (Exc RequestException ''Connection refused'') \<and>
   stderr (snd (download_chapter_try broken_stderr_env ''ex'' ''1'' ''out'' empty_world)) = [] \<and>
   download_chapter_io broken_stderr_env ''ex'' ''1'' ''out'' empty_world =
     Inl (Exc OSError ''[Errno 32] Broken pipe'')"
proof (intro conjI)
  show "fst (download_chapter_try broken_stderr_env ''ex'' ''1'' ''out'' empty_world) =
     Inl (Exc RequestException ''Connection refused'')" by code_simp
  show "stderr (snd (download_chapter_try broken_stderr_env ''ex'' ''1'' ''out'' empty_world)) = []"
    by code_simp
  show "download_chapter_io broken_stderr_env ''ex'' ''1'' ''out'' empty_world =
     Inl (Exc OSError ''[Errno 32] Broken pipe'')" by code_simp
qed

subsection \<open>The group whose page list is fetched\<close>






lemma select_group_url_empty:
  assumes "subscript chapter_data ''groups'' = Inr (JDict [])"
  shows "\<exists>w'. requests w' = requests w \<and> select_group_url c chapter_data w = (Return None, w')"
  using assms by (simp add: select_group_url_def Let_def)






subsection \<open>The contract of \<^verbatim>\<open>download_chapter\<close>\<close>









end
